theory Spec2Isabelle
  imports Complex_Main
begin

text \<open>
  A model of the context-health service: the degradation curves and the catalog of model
  profiles, the health assessment, the recommendation generator, and the resolver that
  looks up unknown models remotely, caches them and shares one fetch among concurrent
  callers. The definitions follow the TypeScript sources function by function; the
  theorems settle the claims of the specification about them.
\<close>


section \<open>JavaScript numbers\<close>

text \<open>
  The program computes with JavaScript numbers, which are IEEE 754 double-precision
  values. Arguments and record fields are taken to be finite numbers and are modelled as
  reals (the sign of zero is not modelled). An arithmetic result can still leave the
  finite numbers, because JavaScript does not raise on a division by zero: it yields an
  infinity or \<open>NaN\<close>, and these propagate. Every expression of the source that divides by
  a value that can be zero is therefore evaluated in \<open>jsnum\<close>.

  The result of an arithmetic operation is the exact result rounded to the nearest double.
  The operations \<open>jadd\<close>, \<open>jmul\<close> and \<open>jdiv\<close> below are exact; \<open>dmul\<close> and \<open>ddiv\<close> round as
  the machine does. The rounded operations are used for the utilization percentage, whose
  exact value is a tie of \<open>Math.round\<close> at ordinary inputs, so that the last bit of the
  quotient decides the result. The degradation curves and the score are evaluated exactly
  (\<open>Math.pow\<close> has no prescribed rounding).
\<close>

datatype jsnum = Fin real | PosInf | NegInf | NaN

fun jneg :: "jsnum \<Rightarrow> jsnum" where
  "jneg (Fin a) = Fin (- a)"
| "jneg PosInf = NegInf"
| "jneg NegInf = PosInf"
| "jneg NaN = NaN"

fun jadd :: "jsnum \<Rightarrow> jsnum \<Rightarrow> jsnum" where
  "jadd NaN _ = NaN"
| "jadd _ NaN = NaN"
| "jadd (Fin a) (Fin b) = Fin (a + b)"
| "jadd PosInf NegInf = NaN"
| "jadd NegInf PosInf = NaN"
| "jadd PosInf _ = PosInf"
| "jadd _ PosInf = PosInf"
| "jadd NegInf _ = NegInf"
| "jadd _ NegInf = NegInf"

definition jsub :: "jsnum \<Rightarrow> jsnum \<Rightarrow> jsnum" where
  "jsub a b = jadd a (jneg b)"

text \<open>The sign of an infinite product or quotient; a zero factor gives \<open>NaN\<close>.\<close>

definition inf_signed :: "real \<Rightarrow> jsnum" where
  "inf_signed a = (if 0 < a then PosInf else if a < 0 then NegInf else NaN)"

fun jmul :: "jsnum \<Rightarrow> jsnum \<Rightarrow> jsnum" where
  "jmul NaN _ = NaN"
| "jmul _ NaN = NaN"
| "jmul (Fin a) (Fin b) = Fin (a * b)"
| "jmul (Fin a) PosInf = inf_signed a"
| "jmul (Fin a) NegInf = inf_signed (- a)"
| "jmul PosInf (Fin b) = inf_signed b"
| "jmul NegInf (Fin b) = inf_signed (- b)"
| "jmul PosInf PosInf = PosInf"
| "jmul NegInf NegInf = PosInf"
| "jmul PosInf NegInf = NegInf"
| "jmul NegInf PosInf = NegInf"

text \<open>
  Division: a finite number over zero is an infinity of the sign of the numerator, and
  \<open>0 / 0\<close> is \<open>NaN\<close>.
\<close>

fun jdiv :: "jsnum \<Rightarrow> jsnum \<Rightarrow> jsnum" where
  "jdiv NaN _ = NaN"
| "jdiv _ NaN = NaN"
| "jdiv (Fin a) (Fin b) = (if b = 0 then inf_signed a else Fin (a / b))"
| "jdiv (Fin a) PosInf = Fin 0"
| "jdiv (Fin a) NegInf = Fin 0"
| "jdiv PosInf (Fin b) = (if b < 0 then NegInf else PosInf)"
| "jdiv NegInf (Fin b) = (if b < 0 then PosInf else NegInf)"
| "jdiv _ _ = NaN"

text \<open>Comparisons: every comparison with \<open>NaN\<close> is false.\<close>

fun jle :: "jsnum \<Rightarrow> jsnum \<Rightarrow> bool" where
  "jle NaN _ = False"
| "jle _ NaN = False"
| "jle (Fin a) (Fin b) = (a \<le> b)"
| "jle NegInf _ = True"
| "jle _ PosInf = True"
| "jle _ _ = False"

fun jlt :: "jsnum \<Rightarrow> jsnum \<Rightarrow> bool" where
  "jlt NaN _ = False"
| "jlt _ NaN = False"
| "jlt (Fin a) (Fin b) = (a < b)"
| "jlt PosInf _ = False"
| "jlt _ NegInf = False"
| "jlt _ _ = True"

definition jge :: "jsnum \<Rightarrow> jsnum \<Rightarrow> bool" where
  "jge a b = jle b a"

definition jgt :: "jsnum \<Rightarrow> jsnum \<Rightarrow> bool" where
  "jgt a b = jlt b a"

text \<open>\<open>Math.max\<close> and \<open>Math.min\<close> return \<open>NaN\<close> as soon as one argument is \<open>NaN\<close>.\<close>

fun jmax :: "jsnum \<Rightarrow> jsnum \<Rightarrow> jsnum" where
  "jmax NaN _ = NaN"
| "jmax _ NaN = NaN"
| "jmax a b = (if jle a b then b else a)"

fun jmin :: "jsnum \<Rightarrow> jsnum \<Rightarrow> jsnum" where
  "jmin NaN _ = NaN"
| "jmin _ NaN = NaN"
| "jmin a b = (if jle a b then a else b)"

text \<open>\<open>Math.round\<close>: the nearest integer, a tie going up.\<close>

definition round_half_up :: "real \<Rightarrow> real" where
  "round_half_up x = of_int \<lfloor>x + 1 / 2\<rfloor>"

fun jround :: "jsnum \<Rightarrow> jsnum" where
  "jround (Fin a) = Fin (round_half_up a)"
| "jround PosInf = PosInf"
| "jround NegInf = NegInf"
| "jround NaN = NaN"

text \<open>
  Rounding to the nearest double, a tie going to the even significand. Around a number
  \<open>x\<close> with \<open>2^e \<le> |x| < 2^(e+1)\<close> the doubles are the multiples of \<open>2^(e-52)\<close>; below
  \<open>2^(-1022)\<close> (the subnormal numbers) they are the multiples of \<open>2^(-1074)\<close>; a result of
  magnitude \<open>2^1024\<close> or more is an infinity.
\<close>

definition round_ties_even :: "real \<Rightarrow> int" where
  "round_ties_even x =
     (let f = \<lfloor>x\<rfloor>
      in if x - of_int f < 1 / 2 then f
         else if 1 / 2 < x - of_int f then f + 1
         else if even f then f else f + 1)"

definition binade :: "real \<Rightarrow> int" where
  "binade x = max \<lfloor>log 2 \<bar>x\<bar>\<rfloor> (- 1022)"

definition to_double :: "real \<Rightarrow> jsnum" where
  "to_double x =
     (if x = 0 then Fin 0
      else
        let u = 2 powr of_int (binade x - 52);
            r = of_int (round_ties_even (x / u)) * u
        in if 2 ^ 1024 \<le> r then PosInf
           else if r \<le> - (2 ^ 1024) then NegInf
           else Fin r)"

text \<open>Multiplication and division of doubles: the exact result, rounded.\<close>

definition dmul :: "jsnum \<Rightarrow> jsnum \<Rightarrow> jsnum" where
  "dmul a b = (case jmul a b of Fin x \<Rightarrow> to_double x | v \<Rightarrow> v)"

definition ddiv :: "jsnum \<Rightarrow> jsnum \<Rightarrow> jsnum" where
  "ddiv a b = (case jdiv a b of Fin x \<Rightarrow> to_double x | v \<Rightarrow> v)"

text \<open>
  \<open>Math.pow\<close> with a positive exponent that is not an integer (the program uses 1.5): a
  negative base gives \<open>NaN\<close>, both infinities give \<open>Infinity\<close>.
\<close>

fun jpow :: "jsnum \<Rightarrow> real \<Rightarrow> jsnum" where
  "jpow NaN e = NaN"
| "jpow (Fin a) e = (if a < 0 then NaN else Fin (a powr e))"
| "jpow PosInf e = PosInf"
| "jpow NegInf e = PosInf"

section \<open>Degradation profiles (degradation-curves.ts)\<close>

record ModelProfile =
  name :: string
  maxTokens :: real
  degradationOnset :: real
  dangerZone :: real
  middleLossCoefficient :: real
  baseRetrievalAccuracy :: real

definition mk_profile :: "string \<Rightarrow> real \<Rightarrow> real \<Rightarrow> real \<Rightarrow> real \<Rightarrow> real \<Rightarrow> ModelProfile" where
  "mk_profile n m on dz c b =
     \<lparr>name = n, maxTokens = m, degradationOnset = on, dangerZone = dz,
      middleLossCoefficient = c, baseRetrievalAccuracy = b\<rparr>"

definition other_profile :: ModelProfile where
  "other_profile = mk_profile ''Unknown Model'' 128000 80000 100000 0.40 0.90"

definition claude_opus_4 :: ModelProfile where
  "claude_opus_4 = mk_profile ''Claude Opus 4'' 200000 140000 170000 0.25 0.97"

text \<open>The object literal \<open>MODEL_PROFILES\<close>: its own properties, in source order.\<close>

definition MODEL_PROFILES :: "(string \<times> ModelProfile) list" where
  "MODEL_PROFILES =
    [(''claude-3.5-sonnet'', mk_profile ''Claude 3.5 Sonnet'' 200000 120000 152000 0.35 0.95),
     (''claude-3.7-sonnet'', mk_profile ''Claude 3.7 Sonnet'' 200000 130000 160000 0.30 0.96),
     (''claude-sonnet-4'', mk_profile ''Claude Sonnet 4'' 200000 135000 165000 0.28 0.96),
     (''claude-opus-4'', claude_opus_4),
     (''claude-opus-4-5'', mk_profile ''Claude Opus 4.5'' 200000 145000 175000 0.22 0.97),
     (''claude-haiku-3.5'', mk_profile ''Claude Haiku 3.5'' 200000 100000 130000 0.40 0.92),
     (''gpt-4o'', mk_profile ''GPT-4o'' 128000 80000 105000 0.40 0.93),
     (''gpt-4o-mini'', mk_profile ''GPT-4o Mini'' 128000 70000 95000 0.45 0.90),
     (''gpt-4.1'', mk_profile ''GPT-4.1'' 1000000 200000 500000 0.38 0.94),
     (''gpt-4.1-mini'', mk_profile ''GPT-4.1 Mini'' 1000000 180000 450000 0.42 0.91),
     (''o3'', mk_profile ''o3'' 200000 120000 160000 0.30 0.95),
     (''o4-mini'', mk_profile ''o4-mini'' 200000 110000 150000 0.35 0.93),
     (''gemini-2.0-flash'', mk_profile ''Gemini 2.0 Flash'' 1000000 200000 500000 0.50 0.88),
     (''gemini-2.5-pro'', mk_profile ''Gemini 2.5 Pro'' 1000000 250000 600000 0.42 0.92),
     (''gemini-2.5-flash'', mk_profile ''Gemini 2.5 Flash'' 1000000 220000 520000 0.48 0.89),
     (''other'', other_profile)]"

definition KNOWN_MODELS :: "string list" where
  "KNOWN_MODELS = filter (\<lambda>k. k \<noteq> ''other'') (map fst MODEL_PROFILES)"

text \<open>
  \<open>MODEL_PROFILES[model]\<close> is a property read on a plain object. A plain object inherits
  from \<open>Object.prototype\<close>, so the read finds an own property, else a member of
  \<open>Object.prototype\<close> of that name (a function, or for \<open>__proto__\<close> the prototype object
  itself), and only then is \<open>undefined\<close>.
\<close>

datatype js_value = Profile ModelProfile | Inherited string | Undefined

text \<open>The exceptions that the program can meet.\<close>

datatype js_error = TypeError | TimeoutError | SyntaxError | SqliteError

definition Object_prototype_keys :: "string list" where
  "Object_prototype_keys =
    [''constructor'', ''__defineGetter__'', ''__defineSetter__'', ''hasOwnProperty'',
     ''__lookupGetter__'', ''__lookupSetter__'', ''isPrototypeOf'', ''propertyIsEnumerable'',
     ''toString'', ''valueOf'', ''__proto__'', ''toLocaleString'']"

definition property_get :: "string \<Rightarrow> js_value" where
  "property_get key =
     (case map_of MODEL_PROFILES key of
        Some p \<Rightarrow> Profile p
      | None \<Rightarrow> if key \<in> set Object_prototype_keys then Inherited key else Undefined)"

text \<open>\<open>a ?? b\<close> is \<open>b\<close> when \<open>a\<close> is \<open>undefined\<close> (or \<open>null\<close>), else \<open>a\<close>.\<close>

definition nullish_or :: "js_value \<Rightarrow> js_value \<Rightarrow> js_value" where
  "nullish_or a b = (case a of Undefined \<Rightarrow> b | _ \<Rightarrow> a)"

definition getModelProfile :: "string \<Rightarrow> js_value" where
  "getModelProfile model = nullish_or (property_get model) (property_get ''other'')"

definition generateHeuristicProfile :: "string \<Rightarrow> real \<Rightarrow> ModelProfile" where
  "generateHeuristicProfile n m =
     \<lparr>name = n, maxTokens = m,
      degradationOnset = round_half_up (m * 0.65),
      dangerZone = round_half_up (m * 0.80),
      middleLossCoefficient = 0.40,
      baseRetrievalAccuracy = 0.90\<rparr>"

text \<open>
  \<open>calculateQualityMultiplier\<close>. The division is reached only when
  \<open>degradationOnset < tokenCount < maxTokens\<close>, so \<open>range\<close> is positive there and
  \<open>progress\<close> lies strictly between 0 and 1: the result is always a finite number.
  \<open>Math.pow(progress, 1.5)\<close> on a positive base is the real power.
\<close>

definition calculateQualityMultiplier :: "real \<Rightarrow> ModelProfile \<Rightarrow> real" where
  "calculateQualityMultiplier tokenCount profile =
     (if tokenCount \<le> degradationOnset profile then 1.0
      else if tokenCount \<ge> maxTokens profile then 0.2
      else
        let range = maxTokens profile - degradationOnset profile;
            progress = (tokenCount - degradationOnset profile) / range;
            degradation = progress powr 1.5
        in max 0.2 (1.0 - degradation * 0.8))"

text \<open>
  \<open>estimateRetrievalAccuracy\<close>. Here the quotient is not guarded: when
  \<open>maxTokens = degradationOnset\<close> and \<open>tokenCount\<close> is beyond the onset, the divisor is
  zero.
\<close>

definition estimateRetrievalAccuracy :: "real \<Rightarrow> ModelProfile \<Rightarrow> jsnum" where
  "estimateRetrievalAccuracy tokenCount profile =
     (let qualityMult = calculateQualityMultiplier tokenCount profile;
          middlePenalty =
            (if tokenCount > degradationOnset profile
             then jmul (Fin (middleLossCoefficient profile))
                    (jdiv (Fin (tokenCount - degradationOnset profile))
                          (Fin (maxTokens profile - degradationOnset profile)))
             else Fin 0)
      in jmax (Fin 0.1) (jsub (Fin (baseRetrievalAccuracy profile * qualityMult)) middlePenalty))"

section \<open>Quality estimation (quality-estimation.ts)\<close>

datatype RiskLevel = RiskLow | RiskModerate | RiskHigh | RiskCritical

datatype RetrievalStatus = Excellent | Good | Degrading | Poor

datatype HealthStatus = Healthy | Warning | Danger

record QualityEstimate =
  retrieval_accuracy :: RetrievalStatus
  middle_content_risk :: RiskLevel
  estimated_hallucination_risk :: RiskLevel

record TokenUtilization =
  current :: real
  max_effective :: real
  percentage :: jsnum
  danger_zone_starts_at :: real

record SessionFatigue =
  tool_call_burden :: RiskLevel
  session_length_risk :: RiskLevel
  recommendation :: string

record HealthAssessment =
  health_score :: jsnum
  status :: HealthStatus
  token_utilization :: TokenUtilization
  quality_estimate :: QualityEstimate
  session_fatigue :: SessionFatigue

record AssessmentInput =
  tokenCount :: real
  model :: string
  sessionDurationMinutes :: "real option"
  toolCallsCount :: "real option"
  contextSummary :: "string option"

definition calculateMiddleContentRisk :: "real \<Rightarrow> ModelProfile \<Rightarrow> RiskLevel" where
  "calculateMiddleContentRisk tc profile =
     (let ratio = jdiv (Fin tc) (Fin (maxTokens profile))
      in if jlt ratio (Fin 0.3) then RiskLow
         else if jlt ratio (Fin 0.5) then RiskModerate
         else if jlt ratio (Fin 0.75) then RiskHigh
         else RiskCritical)"

definition calculateHallucinationRisk :: "jsnum \<Rightarrow> RiskLevel \<Rightarrow> RiskLevel" where
  "calculateHallucinationRisk retrievalAccuracy toolCallBurden =
     (let toolPenalty =
            (if toolCallBurden = RiskCritical then 0.15
             else if toolCallBurden = RiskHigh then 0.1
             else if toolCallBurden = RiskModerate then 0.05
             else 0);
          adjustedAccuracy = jsub retrievalAccuracy (Fin toolPenalty)
      in if jgt adjustedAccuracy (Fin 0.85) then RiskLow
         else if jgt adjustedAccuracy (Fin 0.7) then RiskModerate
         else if jgt adjustedAccuracy (Fin 0.5) then RiskHigh
         else RiskCritical)"

definition calculateToolCallBurden :: "real \<Rightarrow> RiskLevel" where
  "calculateToolCallBurden n =
     (if n \<le> 5 then RiskLow
      else if n \<le> 15 then RiskModerate
      else if n \<le> 30 then RiskHigh
      else RiskCritical)"

definition calculateSessionLengthRisk :: "real \<Rightarrow> RiskLevel" where
  "calculateSessionLengthRisk durationMinutes =
     (if durationMinutes \<le> 15 then RiskLow
      else if durationMinutes \<le> 45 then RiskModerate
      else if durationMinutes \<le> 90 then RiskHigh
      else RiskCritical)"

definition retrievalAccuracyToStatus :: "jsnum \<Rightarrow> RetrievalStatus" where
  "retrievalAccuracyToStatus accuracy =
     (if jgt accuracy (Fin 0.9) then Excellent
      else if jgt accuracy (Fin 0.75) then Good
      else if jgt accuracy (Fin 0.55) then Degrading
      else Poor)"

definition sessionFatigueRecommendation :: "RiskLevel \<Rightarrow> RiskLevel \<Rightarrow> string" where
  "sessionFatigueRecommendation toolBurden sessionRisk =
     (if toolBurden = RiskCritical \<or> sessionRisk = RiskCritical then
        ''Session is critically fatigued. Strongly recommend starting a fresh session or performing aggressive context compaction immediately.''
      else if toolBurden = RiskHigh \<or> sessionRisk = RiskHigh then
        ''Significant session fatigue detected. Consider summarizing completed work and removing stale context before continuing.''
      else if toolBurden = RiskModerate \<or> sessionRisk = RiskModerate then
        ''Consider breaking into sub-tasks if complexity increases.''
      else ''Session fatigue is low. Continue as normal.'')"

definition toolScore :: "real \<Rightarrow> real" where
  "toolScore n = (if n \<le> 5 then 20 else if n \<le> 15 then 15 else if n \<le> 30 then 8 else 3)"

definition sessionScore :: "real \<Rightarrow> real" where
  "sessionScore d = (if d \<le> 15 then 15 else if d \<le> 45 then 12 else if d \<le> 90 then 6 else 2)"

definition computeHealthScore :: "jsnum \<Rightarrow> jsnum \<Rightarrow> real \<Rightarrow> real \<Rightarrow> jsnum" where
  "computeHealthScore qualityMultiplier retrievalAccuracy n d =
     (let tokenScore = jmul qualityMultiplier (Fin 40);
          retrievalScore = jmul retrievalAccuracy (Fin 25)
      in jround
           (jmax (Fin 0)
              (jmin (Fin 100)
                 (jadd (jadd (jadd tokenScore retrievalScore) (Fin (toolScore n)))
                       (Fin (sessionScore d))))))"

definition scoreToStatus :: "jsnum \<Rightarrow> HealthStatus" where
  "scoreToStatus score =
     (if jge score (Fin 70) then Healthy
      else if jge score (Fin 40) then Warning
      else Danger)"

text \<open>The defaults \<open>input.toolCallsCount ?? 0\<close> and \<open>input.sessionDurationMinutes ?? 0\<close>.\<close>

definition tool_calls :: "AssessmentInput \<Rightarrow> real" where
  "tool_calls input = (case toolCallsCount input of Some v \<Rightarrow> v | None \<Rightarrow> 0)"

definition session_minutes :: "AssessmentInput \<Rightarrow> real" where
  "session_minutes input = (case sessionDurationMinutes input of Some v \<Rightarrow> v | None \<Rightarrow> 0)"

text \<open>
  \<open>assessHealth\<close>, from the resolved profile on: the first statement of the source
  obtains \<open>profile\<close> from the resolver (or from \<open>getModelProfile\<close>), and everything after
  it is the pure function below.
\<close>

definition assessHealth :: "AssessmentInput \<Rightarrow> ModelProfile \<Rightarrow> HealthAssessment" where
  "assessHealth input profile =
     (let n = tool_calls input;
          d = session_minutes input;
          qualityMultiplier = calculateQualityMultiplier (tokenCount input) profile;
          retrievalAccuracy = estimateRetrievalAccuracy (tokenCount input) profile;
          toolBurden = calculateToolCallBurden n;
          sessionRisk = calculateSessionLengthRisk d;
          healthScore = computeHealthScore (Fin qualityMultiplier) retrievalAccuracy n d;
          middleRisk = calculateMiddleContentRisk (tokenCount input) profile;
          hallucinationRisk = calculateHallucinationRisk retrievalAccuracy toolBurden
      in \<lparr>health_score = healthScore,
          status = scoreToStatus healthScore,
          token_utilization =
            \<lparr>current = tokenCount input,
             max_effective = dangerZone profile,
             percentage =
               ddiv (jround (dmul (ddiv (Fin (tokenCount input)) (Fin (dangerZone profile)))
                                  (Fin 1000)))
                    (Fin 10),
             danger_zone_starts_at = dangerZone profile\<rparr>,
          quality_estimate =
            \<lparr>retrieval_accuracy = retrievalAccuracyToStatus retrievalAccuracy,
             middle_content_risk = middleRisk,
             estimated_hallucination_risk = hallucinationRisk\<rparr>,
          session_fatigue =
            \<lparr>tool_call_burden = toolBurden,
             session_length_risk = sessionRisk,
             recommendation = sessionFatigueRecommendation toolBurden sessionRisk\<rparr>\<rparr>)"

text \<open>
  TypeScript types are erased at run time, so these functions run on whatever value the
  lookup of the profile returned. Reading one of the numeric properties of a profile gives
  its number. A member inherited from \<open>Object.prototype\<close> has no property of these names:
  the read gives \<open>undefined\<close>, which arithmetic and comparisons convert to \<open>NaN\<close>. (The
  lookup never yields \<open>undefined\<close> itself; reading a property of \<open>undefined\<close> throws, which
  \<open>assessHealth_untyped\<close> below makes explicit.)
\<close>

definition number_of :: "(ModelProfile \<Rightarrow> real) \<Rightarrow> js_value \<Rightarrow> jsnum" where
  "number_of field v = (case v of Profile p \<Rightarrow> Fin (field p) | _ \<Rightarrow> NaN)"

definition calculateQualityMultiplier_untyped :: "real \<Rightarrow> js_value \<Rightarrow> jsnum" where
  "calculateQualityMultiplier_untyped tc profile =
     (if jle (Fin tc) (number_of degradationOnset profile) then Fin 1.0
      else if jge (Fin tc) (number_of maxTokens profile) then Fin 0.2
      else
        let range = jsub (number_of maxTokens profile) (number_of degradationOnset profile);
            progress = jdiv (jsub (Fin tc) (number_of degradationOnset profile)) range;
            degradation = jpow progress 1.5
        in jmax (Fin 0.2) (jsub (Fin 1.0) (jmul degradation (Fin 0.8))))"

definition estimateRetrievalAccuracy_untyped :: "real \<Rightarrow> js_value \<Rightarrow> jsnum" where
  "estimateRetrievalAccuracy_untyped tc profile =
     (let qualityMult = calculateQualityMultiplier_untyped tc profile;
          middlePenalty =
            (if jgt (Fin tc) (number_of degradationOnset profile)
             then jmul (number_of middleLossCoefficient profile)
                    (jdiv (jsub (Fin tc) (number_of degradationOnset profile))
                          (jsub (number_of maxTokens profile) (number_of degradationOnset profile)))
             else Fin 0)
      in jmax (Fin 0.1)
           (jsub (jmul (number_of baseRetrievalAccuracy profile) qualityMult) middlePenalty))"

text \<open>
  \<open>assessHealth\<close> on an arbitrary value, as far as the fields \<open>health_score\<close> and \<open>status\<close>
  of its result.
\<close>

definition assessHealth_untyped :: "AssessmentInput \<Rightarrow> js_value \<Rightarrow> js_error + jsnum \<times> HealthStatus" where
  "assessHealth_untyped input profile =
     (case profile of
        Undefined \<Rightarrow> Inl TypeError
      | _ \<Rightarrow>
          let n = tool_calls input;
              d = session_minutes input;
              qualityMultiplier = calculateQualityMultiplier_untyped (tokenCount input) profile;
              retrievalAccuracy = estimateRetrievalAccuracy_untyped (tokenCount input) profile;
              healthScore = computeHealthScore qualityMultiplier retrievalAccuracy n d
          in Inr (healthScore, scoreToStatus healthScore))"

section \<open>Recommendations (recommendations.ts)\<close>

datatype Priority = Critical | High | Medium | Low

record Recommendation =
  priority :: Priority
  action :: string
  reason :: string
  estimated_quality_gain :: real

definition riskToPriority :: "RiskLevel \<Rightarrow> Priority" where
  "riskToPriority risk =
     (case risk of RiskCritical \<Rightarrow> Critical | RiskHigh \<Rightarrow> High
      | RiskModerate \<Rightarrow> Medium | RiskLow \<Rightarrow> Low)"

definition priorityWeight :: "Priority \<Rightarrow> real" where
  "priorityWeight p = (case p of Critical \<Rightarrow> 0 | High \<Rightarrow> 1 | Medium \<Rightarrow> 2 | Low \<Rightarrow> 3)"

text \<open>The comparator handed to \<open>Array.prototype.sort\<close>.\<close>

definition compareRecs :: "Recommendation \<Rightarrow> Recommendation \<Rightarrow> real" where
  "compareRecs a b =
     (let pw = priorityWeight (priority a) - priorityWeight (priority b)
      in if pw \<noteq> 0 then pw else estimated_quality_gain b - estimated_quality_gain a)"

text \<open>
  \<open>Array.prototype.sort\<close> is a stable sort: an element stays in front of the later
  elements it does not compare greater than.
\<close>

fun insert_rec :: "Recommendation \<Rightarrow> Recommendation list \<Rightarrow> Recommendation list" where
  "insert_rec x [] = [x]"
| "insert_rec x (y # ys) = (if compareRecs x y \<le> 0 then x # y # ys else y # insert_rec x ys)"

definition sort_recs :: "Recommendation list \<Rightarrow> Recommendation list" where
  "sort_recs xs = foldr insert_rec xs []"

definition rec_immediate_context_reset :: Recommendation where
  "rec_immediate_context_reset =
     \<lparr>priority = Critical, action = ''immediate_context_reset'',
      reason = ''You have exceeded the effective quality threshold. Context quality is severely degraded. Save critical state to external memory and start a fresh session immediately.'',
      estimated_quality_gain = 40\<rparr>"

definition rec_compact_context_critical :: Recommendation where
  "rec_compact_context_critical =
     \<lparr>priority = Critical, action = ''compact_context'',
      reason = ''You are deep in the danger zone. Aggressively summarize all older context, remove completed task details, and retain only active task information.'',
      estimated_quality_gain = 25\<rparr>"

definition rec_compact_context_high :: Recommendation where
  "rec_compact_context_high =
     \<lparr>priority = High, action = ''compact_context'',
      reason = ''You are approaching the effective quality threshold. Summarize older context and remove completed task details.'',
      estimated_quality_gain = 15\<rparr>"

definition rec_plan_compaction :: Recommendation where
  "rec_plan_compaction =
     \<lparr>priority = Medium, action = ''plan_compaction'',
      reason = ''Token usage is moderate. Begin planning which context can be safely summarized or offloaded before you reach the degradation zone.'',
      estimated_quality_gain = 5\<rparr>"

definition rec_offload_to_memory :: "RiskLevel \<Rightarrow> Recommendation" where
  "rec_offload_to_memory risk =
     \<lparr>priority = riskToPriority risk, action = ''offload_to_memory'',
      reason = ''High risk of lost-in-the-middle effect. Key decisions and facts in the middle of your context may already be unretrievable. Store critical information to external memory before it is effectively lost.'',
      estimated_quality_gain = 8\<rparr>"

definition rec_break_into_subtasks :: "RiskLevel \<Rightarrow> Recommendation" where
  "rec_break_into_subtasks risk =
     \<lparr>priority = riskToPriority risk, action = ''break_into_subtasks'',
      reason = ''High number of tool calls has accumulated significant context overhead. Break remaining work into independent sub-tasks that can each start with a fresh, focused context.'',
      estimated_quality_gain = 12\<rparr>"

text \<open>The reason of \<open>session_checkpoint\<close> contains an em dash, here as its UTF-8 bytes.\<close>

definition rec_session_checkpoint :: "RiskLevel \<Rightarrow> Recommendation" where
  "rec_session_checkpoint risk =
     \<lparr>priority = riskToPriority risk, action = ''session_checkpoint'',
      reason = ''This session has been running for a long time. Create a checkpoint by documenting current state, decisions made, and next steps ''
                 @ [CHR 0xE2, CHR 0x80, CHR 0x94]
                 @ '' then consider continuing in a fresh session.'',
      estimated_quality_gain = 10\<rparr>"

definition rec_verify_outputs :: "RiskLevel \<Rightarrow> Recommendation" where
  "rec_verify_outputs risk =
     \<lparr>priority = riskToPriority risk, action = ''verify_outputs'',
      reason = ''Elevated hallucination risk detected. Double-check facts, re-read source material before citing it, and consider re-verifying recent conclusions against original data.'',
      estimated_quality_gain = 5\<rparr>"

definition rec_continue :: Recommendation where
  "rec_continue =
     \<lparr>priority = Low, action = ''continue'',
      reason = ''Context health is good. No immediate action needed. Continue your current task.'',
      estimated_quality_gain = 0\<rparr>"

text \<open>The \<open>if / else if\<close> chain on the token utilization: at most one branch pushes.\<close>

definition utilization_recs :: "jsnum \<Rightarrow> Recommendation list" where
  "utilization_recs utilPct =
     (if jge utilPct (Fin 100) then [rec_immediate_context_reset]
      else if jge utilPct (Fin 80) then [rec_compact_context_critical]
      else if jge utilPct (Fin 60) then [rec_compact_context_high]
      else if jge utilPct (Fin 40) then [rec_plan_compaction]
      else [])"

text \<open>One of the four independent \<open>if\<close> statements on a risk level.\<close>

definition risk_recs :: "RiskLevel \<Rightarrow> (RiskLevel \<Rightarrow> Recommendation) \<Rightarrow> Recommendation list" where
  "risk_recs risk mk = (if risk = RiskHigh \<or> risk = RiskCritical then [mk risk] else [])"

definition generateRecommendations :: "HealthAssessment \<Rightarrow> Recommendation list" where
  "generateRecommendations assessment =
     (let utilPct = percentage (token_utilization assessment);
          recs = utilization_recs utilPct
               @ risk_recs (middle_content_risk (quality_estimate assessment)) rec_offload_to_memory
               @ risk_recs (tool_call_burden (session_fatigue assessment)) rec_break_into_subtasks
               @ risk_recs (session_length_risk (session_fatigue assessment)) rec_session_checkpoint
               @ risk_recs (estimated_hallucination_risk (quality_estimate assessment))
                   rec_verify_outputs;
          recs = (if length recs = 0 then recs @ [rec_continue] else recs)
      in sort_recs recs)"

section \<open>The HuggingFace resolver (huggingface-resolver.ts)\<close>

text \<open>\<open>String.prototype.split\<close> with a one-character separator.\<close>

fun split_on :: "char \<Rightarrow> string \<Rightarrow> string list" where
  "split_on c [] = [[]]"
| "split_on c (x # xs) =
     (if x = c then [] # split_on c xs
      else (case split_on c xs of p # ps \<Rightarrow> (x # p) # ps | [] \<Rightarrow> [[x]]))"

definition looksLikeHuggingFaceRepoId :: "string \<Rightarrow> bool" where
  "looksLikeHuggingFaceRepoId m =
     (let parts = split_on (CHR ''/'') m
      in length parts = 2 \<and> length (parts ! 0) > 0 \<and> length (parts ! 1) > 0)"

text \<open>
  What the program can read of the fetched \<open>config.json\<close>: the three properties
  \<open>max_position_embeddings\<close>, \<open>n_positions\<close> and \<open>max_seq_len\<close>, each absent
  (\<open>undefined\<close>), \<open>null\<close>, a number, or a value of another type. A document that is not
  an object (a number, a string, an array) has none of the three properties and reads
  like an object without them; the document \<open>null\<close> is apart, because reading a property
  of \<open>null\<close> throws.
\<close>

datatype json_field = Absent | JNull | JNumber real | JOther

datatype json_value = JsonNull | JsonObject json_field json_field json_field

text \<open>\<open>a ?? b\<close> on the fields.\<close>

definition coalesce :: "json_field \<Rightarrow> json_field \<Rightarrow> json_field" where
  "coalesce a b = (case a of Absent \<Rightarrow> b | JNull \<Rightarrow> b | _ \<Rightarrow> a)"

fun extractMaxTokens :: "json_value \<Rightarrow> js_error + real option" where
  "extractMaxTokens JsonNull = Inl TypeError"
| "extractMaxTokens (JsonObject max_position_embeddings n_positions max_seq_len) =
     (let v = coalesce (coalesce (coalesce max_position_embeddings n_positions) max_seq_len) JNull
      in case v of
           JNumber x \<Rightarrow> if x \<le> 0 then Inr None else Inr (Some x)
         | _ \<Rightarrow> Inr None)"

text \<open>
  The outcome of \<open>fetch\<close>: it rejects (a network error, or the abort of the 5000 ms
  timeout), or it yields a response, whose \<open>json()\<close> in turn rejects or yields a document.
\<close>

record http_response =
  ok :: bool
  json_body :: "js_error + json_value"

type_synonym fetched = "js_error + http_response"

text \<open>The \<open>try\<close> block of \<open>fetchHuggingFaceConfig\<close>, and the function with its \<open>catch\<close>.\<close>

definition fetchHuggingFaceConfig_try :: "fetched \<Rightarrow> js_error + real option" where
  "fetchHuggingFaceConfig_try f =
     (case f of
        Inl e \<Rightarrow> Inl e
      | Inr response \<Rightarrow>
          if \<not> ok response then Inr None
          else (case json_body response of
                  Inl e \<Rightarrow> Inl e
                | Inr config \<Rightarrow> extractMaxTokens config))"

definition fetchHuggingFaceConfig :: "fetched \<Rightarrow> js_error + real option" where
  "fetchHuggingFaceConfig f =
     (case fetchHuggingFaceConfig_try f of Inl e \<Rightarrow> Inr None | Inr v \<Rightarrow> Inr v)"

text \<open>
  The state of a resolver: the rows of \<open>hf_model_cache\<close> when there is a database, the
  map of in-flight requests, the promises that \<open>fetchAndCache\<close> has created (a promise
  is named by its position), and the input and output performed so far. A row keeps the
  profile as JSON text; writing a profile and parsing it back gives the same fields.
\<close>

record cache_row =
  max_tokens :: real
  profile_json :: ModelProfile

datatype promise_state = Pending | Fulfilled js_value | Rejected js_error

record promise =
  repo :: string
  state :: promise_state
  finalized :: bool

datatype io_event = Fetch string | CacheRead string | CacheWrite string

record resolver =
  db :: "(string \<rightharpoonup> cache_row) option"
  inFlightRequests :: "string \<rightharpoonup> nat"
  promises :: "promise list"
  io_log :: "io_event list"

definition new_resolver :: "(string \<rightharpoonup> cache_row) option \<Rightarrow> resolver" where
  "new_resolver d = \<lparr>db = d, inFlightRequests = Map.empty, promises = [], io_log = []\<rparr>"

text \<open>
  \<open>getCached\<close> and \<open>cacheProfile\<close>. A statement on the database may throw; the flag
  says whether this one does, and the \<open>catch\<close> of each function swallows the error.
\<close>

definition getCached :: "resolver \<Rightarrow> string \<Rightarrow> bool \<Rightarrow> resolver \<times> ModelProfile option" where
  "getCached s repoId throws =
     (case db s of
        None \<Rightarrow> (s, None)
      | Some rows \<Rightarrow>
          let s' = s\<lparr>io_log := io_log s @ [CacheRead repoId]\<rparr>;
              queried = (if throws then Inl SqliteError else Inr (rows repoId))
          in case queried of
               Inl e \<Rightarrow> (s', None)
             | Inr None \<Rightarrow> (s', None)
             | Inr (Some row) \<Rightarrow> (s', Some (profile_json row)))"

definition cacheProfile :: "resolver \<Rightarrow> string \<Rightarrow> real \<Rightarrow> ModelProfile \<Rightarrow> bool \<Rightarrow> resolver" where
  "cacheProfile s repoId m profile throws =
     (case db s of
        None \<Rightarrow> s
      | Some rows \<Rightarrow>
          let s' = s\<lparr>io_log := io_log s @ [CacheWrite repoId]\<rparr>
          in if throws then s'
             else s'\<lparr>db := Some (rows(repoId \<mapsto> \<lparr>max_tokens = m, profile_json = profile\<rparr>))\<rparr>)"

text \<open>
  \<open>fetchAndCache\<close> from the point where the awaited \<open>fetchHuggingFaceConfig\<close> has
  settled (the calls of the logger are left out).
\<close>

definition fetchAndCache :: "resolver \<Rightarrow> string \<Rightarrow> fetched \<Rightarrow> bool \<Rightarrow> resolver \<times> (js_error + js_value)" where
  "fetchAndCache s repoId f write_throws =
     (case fetchHuggingFaceConfig f of
        Inl e \<Rightarrow> (s, Inl e)
      | Inr None \<Rightarrow> (s, Inr (getModelProfile ''other''))
      | Inr (Some m) \<Rightarrow>
          let profile = generateHeuristicProfile repoId m;
              s' = cacheProfile s repoId m profile write_throws
          in (s', Inr (Profile profile)))"

text \<open>
  Reading \<open>.name\<close>: of a profile its name; of a function inherited from
  \<open>Object.prototype\<close> the name of the function; of the prototype object itself
  \<open>undefined\<close>; on \<open>undefined\<close> the read throws.
\<close>

definition name_of :: "js_value \<Rightarrow> js_error + string option" where
  "name_of v =
     (case v of
        Profile p \<Rightarrow> Inr (Some (name p))
      | Inherited k \<Rightarrow>
          Inr (if k = ''__proto__'' then None
               else if k = ''constructor'' then Some ''Object'' else Some k)
      | Undefined \<Rightarrow> Inl TypeError)"

text \<open>
  What a call of \<open>resolveModelProfile\<close> hands back: a value at once, the promise it waits
  for, or an exception.
\<close>

datatype reply = Returns js_value | Awaits nat | Throws js_error | NoReply

text \<open>
  \<open>resolveModelProfile\<close> up to its \<open>await\<close>. JavaScript runs this part without
  interruption; it includes the call of \<open>fetch\<close> inside \<open>fetchAndCache\<close>, so the network
  request is issued here.
\<close>

definition resolveModelProfile :: "resolver \<Rightarrow> string \<Rightarrow> bool \<Rightarrow> resolver \<times> reply" where
  "resolveModelProfile s m read_throws =
     (let curated = getModelProfile m
      in case name_of curated of
           Inl e \<Rightarrow> (s, Throws e)
         | Inr nm \<Rightarrow>
             if nm \<noteq> Some ''Unknown Model'' then (s, Returns curated)
             else if \<not> looksLikeHuggingFaceRepoId m then (s, Returns curated)
             else (case getCached s m read_throws of
                     (s1, Some cached) \<Rightarrow> (s1, Returns (Profile cached))
                   | (s1, None) \<Rightarrow>
                       (case inFlightRequests s1 m of
                          Some existing \<Rightarrow> (s1, Awaits existing)
                        | None \<Rightarrow>
                            let pid = length (promises s1);
                                s2 = s1\<lparr>io_log := io_log s1 @ [Fetch m],
                                        promises := promises s1
                                          @ [\<lparr>repo = m, state = Pending, finalized = False\<rparr>]\<rparr>;
                                s3 = s2\<lparr>inFlightRequests := (inFlightRequests s2)(m \<mapsto> pid)\<rparr>
                            in (s3, Awaits pid))))"

text \<open>The fetch behind promise \<open>pid\<close> settles: the rest of \<open>fetchAndCache\<close> runs.\<close>

definition fetch_settles :: "resolver \<Rightarrow> nat \<Rightarrow> fetched \<Rightarrow> bool \<Rightarrow> resolver" where
  "fetch_settles s pid f write_throws =
     (if pid < length (promises s) \<and> state (promises s ! pid) = Pending then
        (case fetchAndCache s (repo (promises s ! pid)) f write_throws of
           (s', outcome) \<Rightarrow>
             s'\<lparr>promises := (promises s')
                  [pid := (promises s' ! pid)
                     \<lparr>state := (case outcome of Inl e \<Rightarrow> Rejected e | Inr v \<Rightarrow> Fulfilled v)\<rparr>]\<rparr>)
      else s)"

text \<open>
  The \<open>finally\<close> block of the call that created promise \<open>pid\<close>: it runs once, after the
  promise has settled.
\<close>

definition finally_runs :: "resolver \<Rightarrow> nat \<Rightarrow> resolver" where
  "finally_runs s pid =
     (if pid < length (promises s) \<and> state (promises s ! pid) \<noteq> Pending
         \<and> \<not> finalized (promises s ! pid) then
        s\<lparr>inFlightRequests := (inFlightRequests s)(repo (promises s ! pid) := None),
          promises := (promises s)[pid := (promises s ! pid)\<lparr>finalized := True\<rparr>]\<rparr>
      else s)"

text \<open>
  The event loop: calls by clients, settlements of fetches and \<open>finally\<close> blocks, in any
  order.
\<close>

datatype event = Call string bool | FetchSettled nat fetched bool | Finally nat

fun step :: "event \<Rightarrow> resolver \<Rightarrow> resolver \<times> reply" where
  "step (Call m read_throws) s = resolveModelProfile s m read_throws"
| "step (FetchSettled pid f write_throws) s = (fetch_settles s pid f write_throws, NoReply)"
| "step (Finally pid) s = (finally_runs s pid, NoReply)"

fun run :: "event list \<Rightarrow> resolver \<Rightarrow> resolver \<times> reply list" where
  "run [] s = (s, [])"
| "run (e # es) s =
     (case step e s of (s1, r) \<Rightarrow> (case run es s1 of (s2, rs) \<Rightarrow> (s2, r # rs)))"

text \<open>What the caller finally receives for a reply, once the promise has settled.\<close>

definition received :: "resolver \<Rightarrow> reply \<Rightarrow> (js_error + js_value) option" where
  "received s r =
     (case r of
        Returns v \<Rightarrow> Some (Inr v)
      | Throws e \<Rightarrow> Some (Inl e)
      | Awaits pid \<Rightarrow>
          (if pid < length (promises s) then
             (case state (promises s ! pid) of
                Pending \<Rightarrow> None
              | Fulfilled v \<Rightarrow> Some (Inr v)
              | Rejected e \<Rightarrow> Some (Inl e))
           else None)
      | NoReply \<Rightarrow> None)"

section \<open>Specification-level notions used in the theorems\<close>

text \<open>The middle-loss penalty as a real number, meaningful where the divisor is not zero.\<close>

definition middle_penalty :: "real \<Rightarrow> ModelProfile \<Rightarrow> real" where
  "middle_penalty t p =
     (if t > degradationOnset p
      then middleLossCoefficient p * ((t - degradationOnset p) / (maxTokens p - degradationOnset p))
      else 0)"

text \<open>
  The composite score as the specification words it: the weighted sum, rounded, then
  clamped to the interval from 0 to 100 (the source clamps first and rounds last).
\<close>

definition spec_health_score :: "jsnum \<Rightarrow> jsnum \<Rightarrow> real \<Rightarrow> real \<Rightarrow> jsnum" where
  "spec_health_score q r n d =
     jmax (Fin 0) (jmin (Fin 100)
       (jround (jadd (jadd (jadd (jmul (Fin 40) q) (jmul (Fin 25) r)) (Fin (toolScore n)))
                     (Fin (sessionScore d)))))"

text \<open>
  The utilization percentage as the specification words it, in exact arithmetic:
  \<open>round(tokenCount / dangerZone * 1000) / 10\<close>, for a \<open>dangerZone\<close> that is not zero. The
  number that is rounded is \<open>permille\<close>.
\<close>

definition permille :: "real \<Rightarrow> real \<Rightarrow> real" where
  "permille tc dz = tc / dz * 1000"

definition spec_percentage :: "real \<Rightarrow> real \<Rightarrow> real" where
  "spec_percentage tc dz = round_half_up (permille tc dz) / 10"

text \<open>The four recommendations of the token-utilization ladder.\<close>

definition ladder :: "Recommendation list" where
  "ladder = [rec_immediate_context_reset, rec_compact_context_critical,
             rec_compact_context_high, rec_plan_compaction]"

definition ladder_part :: "Recommendation list \<Rightarrow> Recommendation list" where
  "ladder_part recs = filter (\<lambda>r. r \<in> set ladder) recs"

text \<open>Concrete inputs used to exercise the theorems.\<close>

definition input_of :: "real \<Rightarrow> string \<Rightarrow> AssessmentInput" where
  "input_of tc m =
     \<lparr>tokenCount = tc, model = m, sessionDurationMinutes = None, toolCallsCount = None,
      contextSummary = None\<rparr>"

definition zero_range_profile :: ModelProfile where
  "zero_range_profile = mk_profile ''zero-range'' 1000 1000 1000 0 0.9"

text \<open>The fetches for a key that have been issued and have not settled.\<close>

definition outstanding :: "resolver \<Rightarrow> string \<Rightarrow> nat list" where
  "outstanding s k =
     filter (\<lambda>pid. repo (promises s ! pid) = k \<and> state (promises s ! pid) = Pending)
       [0 ..< length (promises s)]"

text \<open>The number of network calls issued for a key.\<close>

definition fetch_count :: "resolver \<Rightarrow> string \<Rightarrow> nat" where
  "fetch_count s k = length (filter (\<lambda>e. e = Fetch k) (io_log s))"

definition cached_row :: "resolver \<Rightarrow> string \<Rightarrow> cache_row option" where
  "cached_row s k = (case db s of None \<Rightarrow> None | Some rows \<Rightarrow> rows k)"

text \<open>The replies given to the calls for a key, among the replies to a list of events.\<close>

fun is_call :: "string \<Rightarrow> event \<Rightarrow> bool" where
  "is_call k (Call m b) = (m = k)"
| "is_call k _ = False"

fun settles :: "nat \<Rightarrow> event \<Rightarrow> bool" where
  "settles pid (FetchSettled p f b) = (p = pid)"
| "settles pid _ = False"

definition replies_to :: "string \<Rightarrow> event list \<Rightarrow> reply list \<Rightarrow> reply list" where
  "replies_to k evs rs = map snd (filter (\<lambda>er. is_call k (fst er)) (zip evs rs))"

text \<open>
  A resolution failure in the words of the specification: a timeout or network error,
  a response that is not 2xx, a body that is not a readable configuration, a missing or
  invalid context-length field, or a value that is not positive.
\<close>

definition resolution_failure :: "fetched \<Rightarrow> bool" where
  "resolution_failure f =
     (case f of
        Inl e \<Rightarrow> True
      | Inr response \<Rightarrow>
          \<not> ok response
          \<or> (case json_body response of
                Inl e \<Rightarrow> True
              | Inr JsonNull \<Rightarrow> True
              | Inr (JsonObject a b c) \<Rightarrow>
                  (case coalesce (coalesce a b) c of
                     Absent \<Rightarrow> True
                   | JNull \<Rightarrow> True
                   | JOther \<Rightarrow> True
                   | JNumber x \<Rightarrow> x \<le> 0)))"

text \<open>A successful response carrying \<open>max_position_embeddings\<close> only.\<close>

definition config_response :: "real \<Rightarrow> fetched" where
  "config_response m =
     Inr \<lparr>ok = True, json_body = Inr (JsonObject (JNumber m) Absent Absent)\<rparr>"

definition not_found_response :: fetched where
  "not_found_response = Inr \<lparr>ok = False, json_body = Inl SyntaxError\<rparr>"

definition full_window_assessment :: HealthAssessment where
  "full_window_assessment = assessHealth (input_of 200000 ''claude-opus-4'') claude_opus_4"

text \<open>
  The invariant of the resolver that the proofs maintain: an in-flight entry names a
  promise of that key whose \<open>finally\<close> block has not run; a promise whose \<open>finally\<close> block
  has not run is the in-flight entry of its key; a pending promise has not run its
  \<open>finally\<close> block; and no promise is rejected.
\<close>

definition resolver_inv :: "resolver \<Rightarrow> bool" where
  "resolver_inv s \<longleftrightarrow>
     (\<forall>k pid. inFlightRequests s k = Some pid \<longrightarrow>
        pid < length (promises s) \<and> repo (promises s ! pid) = k
        \<and> \<not> finalized (promises s ! pid))
     \<and> (\<forall>pid. pid < length (promises s) \<and> \<not> finalized (promises s ! pid) \<longrightarrow>
          inFlightRequests s (repo (promises s ! pid)) = Some pid)
     \<and> (\<forall>pid. pid < length (promises s) \<and> state (promises s ! pid) = Pending \<longrightarrow>
          \<not> finalized (promises s ! pid))
     \<and> (\<forall>pid e. pid < length (promises s) \<longrightarrow> state (promises s ! pid) \<noteq> Rejected e)"

text \<open>
  The state after the cache lookup of a call, and the state after a call that has started
  a fetch for \<open>m\<close>.
\<close>

definition after_read :: "resolver \<Rightarrow> string \<Rightarrow> resolver" where
  "after_read s m =
     s\<lparr>io_log := io_log s @ (case db s of None \<Rightarrow> [] | Some rows \<Rightarrow> [CacheRead m])\<rparr>"

definition started :: "resolver \<Rightarrow> string \<Rightarrow> resolver" where
  "started s m =
     s\<lparr>io_log := io_log (after_read s m) @ [Fetch m],
       promises := promises s @ [\<lparr>repo = m, state = Pending, finalized = False\<rparr>],
       inFlightRequests := (inFlightRequests s)(m \<mapsto> length (promises s))\<rparr>"

text \<open>
  The situation between the call that starts the fetch \<open>pid\<close> for the key \<open>k\<close> and the
  settlement of that fetch: the fetch is in flight and pending, nothing is cached for the
  key, and \<open>c\<close> network calls have been issued for it.
\<close>

definition sharing :: "string \<Rightarrow> nat \<Rightarrow> nat \<Rightarrow> resolver \<Rightarrow> bool" where
  "sharing k pid c s \<longleftrightarrow>
     resolver_inv s \<and> inFlightRequests s k = Some pid \<and> pid < length (promises s)
     \<and> state (promises s ! pid) = Pending \<and> cached_row s k = None \<and> fetch_count s k = c"

section \<open>Arithmetic on finite numbers\<close>


lemma fin_simps [simp]:
  "jsub (Fin a) (Fin b) = Fin (a - b)"
  "jge (Fin a) (Fin b) = (b \<le> a)"
  "jgt (Fin a) (Fin b) = (b < a)"
  by (simp_all add: jsub_def jge_def jgt_def)

section \<open>Rounding to the nearest double\<close>

lemma round_ties_even_err: "\<bar>of_int (round_ties_even x) - x\<bar> \<le> 1 / 2"
  unfolding round_ties_even_def Let_def
  by (auto simp add: abs_if) linarith+

lemma binade_bounds:
  assumes "2 powr of_int e \<le> \<bar>x\<bar>" "\<bar>x\<bar> < 2 powr of_int (e + 1)"
  shows "\<lfloor>log 2 \<bar>x\<bar>\<rfloor> = e"
proof -
  have "(0 :: real) < 2 powr of_int e" by simp
  then have pos: "0 < \<bar>x\<bar>" using assms(1) by linarith
  have "of_int e \<le> log 2 \<bar>x\<bar>" using assms(1) pos by (simp add: le_log_iff)
  moreover have "log 2 \<bar>x\<bar> < of_int (e + 1)" using assms(2) pos by (simp add: log_less_iff)
  ultimately show ?thesis by (simp add: floor_eq_iff)
qed


lemma round_ties_even_bound:
  assumes "\<bar>z\<bar> < of_int k"
  shows "\<bar>round_ties_even z\<bar> \<le> k"
proof -
  have "\<bar>of_int (round_ties_even z) - z\<bar> \<le> 1 / 2" by (rule round_ties_even_err)
  then have "\<bar>real_of_int (round_ties_even z)\<bar> < of_int k + 1" using assms by linarith
  then have "\<bar>round_ties_even z\<bar> < k + 1"
    by (metis of_int_abs of_int_less_iff of_int_add of_int_1)
  then show ?thesis by simp
qed

lemma to_double_eval:
  assumes "2 powr of_int e \<le> \<bar>x\<bar>" "\<bar>x\<bar> < 2 powr of_int (e + 1)" "- 1022 \<le> e" "e \<le> 1022"
  shows "to_double x = Fin (of_int (round_ties_even (x / 2 powr of_int (e - 52))) * 2 powr of_int (e - 52))"
proof -
  define u :: real where "u = 2 powr of_int (e - 52)"
  define k where "k = round_ties_even (x / u)"
  have upos: "0 < u" by (simp add: u_def)
  have "(0 :: real) < 2 powr of_int e" by simp
  then have x0: "x \<noteq> 0" using assms(1) by auto
  have b: "binade x = e" using binade_bounds [OF assms(1,2)] assms(3) by (simp add: binade_def)
  have pw: "2 powr of_int (e + 1) = 2 ^ 53 * u"
  proof -
    have "of_int (e + 1) = (53 :: real) + of_int (e - 52)" by simp
    then have "(2 :: real) powr of_int (e + 1) = 2 powr 53 * 2 powr of_int (e - 52)"
      by (simp only: powr_add)
    then show ?thesis by (simp add: u_def)
  qed
  then have "\<bar>x\<bar> < 2 ^ 53 * u" using assms(2) by simp
  then have "\<bar>x\<bar> / u < 2 ^ 53" using upos by (simp add: pos_divide_less_eq)
  moreover have "\<bar>x / u\<bar> = \<bar>x\<bar> / u" using upos by (simp add: abs_divide)
  ultimately have "\<bar>x / u\<bar> < 2 ^ 53" by (simp only:)
  then have "\<bar>x / u\<bar> < of_int (2 ^ 53)" by simp
  then have kb: "\<bar>k\<bar> \<le> 2 ^ 53" unfolding k_def by (rule round_ties_even_bound)
  have "\<bar>of_int k * u\<bar> = of_int \<bar>k\<bar> * u" using upos by (simp add: abs_mult)
  also have "\<dots> \<le> 2 ^ 53 * u"
  proof -
    have "(of_int \<bar>k\<bar> :: real) \<le> of_int (2 ^ 53)" using kb by (simp only: of_int_le_iff)
    then show ?thesis using upos by simp
  qed
  also have "\<dots> = 2 powr of_int (e + 1)" by (simp only: pw)
  also have "\<dots> \<le> 2 powr 1023"
  proof -
    have le: "real_of_int (e + 1) \<le> 1023" using assms(4) by simp
    show ?thesis by (rule powr_mono [OF le]) simp
  qed
  also have "\<dots> < 2 ^ 1024"
  proof -
    have "(2 :: real) powr 1023 = 2 ^ 1023" by (simp add: powr_numeral del: power_numeral)
    then show ?thesis by simp
  qed
  finally have "\<bar>of_int k * u\<bar> < 2 ^ 1024" .
  then have "\<not> 2 ^ 1024 \<le> of_int k * u" "\<not> of_int k * u \<le> - (2 ^ 1024)" by linarith+
  then show ?thesis
    using x0 b by (simp add: to_double_def Let_def k_def u_def)
qed

lemma to_double_err:
  assumes "2 powr (- 1022) \<le> \<bar>x\<bar>" "\<bar>x\<bar> < 2 powr 1023"
  shows "\<exists>y. to_double x = Fin y \<and> \<bar>y - x\<bar> \<le> \<bar>x\<bar> / 2 ^ 53"
proof -
  define e where "e = \<lfloor>log 2 \<bar>x\<bar>\<rfloor>"
  define u :: real where "u = 2 powr of_int (e - 52)"
  have "(0 :: real) < 2 powr (- 1022)" by simp
  then have pos: "0 < \<bar>x\<bar>" using assms(1) by linarith
  have upos: "0 < u" by (simp add: u_def)
  have lo: "2 powr of_int e \<le> \<bar>x\<bar>"
  proof -
    have "of_int e \<le> log 2 \<bar>x\<bar>" by (simp add: e_def)
    then show ?thesis using pos by (simp add: le_log_iff)
  qed
  have hi: "\<bar>x\<bar> < 2 powr of_int (e + 1)"
  proof -
    have "log 2 \<bar>x\<bar> < of_int (e + 1)" by (simp add: e_def)
    then show ?thesis using pos by (simp add: log_less_iff)
  qed
  have e1: "- 1022 \<le> e"
  proof -
    have "(- 1022 :: real) \<le> log 2 \<bar>x\<bar>" using assms(1) pos by (simp add: le_log_iff)
    then show ?thesis by (simp add: e_def le_floor_iff)
  qed
  have e2: "e \<le> 1022"
  proof -
    have "log 2 \<bar>x\<bar> < 1023" using assms(2) pos by (simp add: log_less_iff)
    then have "e < 1023" by (simp add: e_def floor_less_iff)
    then show ?thesis by simp
  qed
  define y where "y = of_int (round_ties_even (x / u)) * u"
  have eq: "to_double x = Fin y" unfolding y_def u_def by (rule to_double_eval [OF lo hi e1 e2])
  have "y - x = (of_int (round_ties_even (x / u)) - x / u) * u"
    using upos by (simp add: y_def algebra_simps)
  then have "\<bar>y - x\<bar> = \<bar>of_int (round_ties_even (x / u)) - x / u\<bar> * u"
    using upos by (simp add: abs_mult)
  also have "\<dots> \<le> 1 / 2 * u"
    using round_ties_even_err [of "x / u"] upos by (intro mult_right_mono) simp_all
  also have "\<dots> = 2 powr of_int e / 2 ^ 53"
  proof -
    have "of_int (e - 52) = of_int e - (52 :: real)" by simp
    then have "u = 2 powr of_int e / 2 powr 52" by (simp only: u_def powr_diff)
    then show ?thesis by simp
  qed
  also have "\<dots> \<le> \<bar>x\<bar> / 2 ^ 53" using lo by (simp add: divide_right_mono)
  finally show ?thesis using eq by blast
qed


lemma powr_int_nat: "(2 :: real) powr of_int (int n) = 2 ^ n"
  by (simp add: powr_realpow)

lemma powr_int_neg_nat: "(2 :: real) powr of_int (- int n) = 1 / 2 ^ n"
proof -
  have "(2 :: real) powr of_int (- int n) = 2 powr (- real n)" by simp
  also have "\<dots> = 1 / 2 powr real n" by (simp only: powr_minus_divide)
  also have "\<dots> = 1 / 2 ^ n" by (simp add: powr_realpow)
  finally show ?thesis .
qed

lemma to_double_hi:
  assumes "n \<le> 52" "2 ^ n \<le> \<bar>x\<bar>" "\<bar>x\<bar> < 2 * 2 ^ n"
  shows "to_double x = Fin (of_int (round_ties_even (x * 2 ^ (52 - n))) / 2 ^ (52 - n))"
proof -
  have 1: "2 powr of_int (int n) \<le> \<bar>x\<bar>" using assms(2) by (simp only: powr_int_nat)
  have "int n + 1 = int (Suc n)" by simp
  then have "(2 :: real) powr of_int (int n + 1) = 2 * 2 ^ n" by (simp only: powr_int_nat power_Suc)
  then have 2: "\<bar>x\<bar> < 2 powr of_int (int n + 1)" using assms(3) by simp
  have "int n - 52 = - int (52 - n)" using assms(1) by simp
  then have u: "(2 :: real) powr of_int (int n - 52) = 1 / 2 ^ (52 - n)" by (simp only: powr_int_neg_nat)
  show ?thesis
    using to_double_eval [OF 1 2] assms(1) unfolding u by simp
qed

lemma to_double_lo:
  assumes "n \<le> 1022" "1 \<le> \<bar>x\<bar> * 2 ^ n" "\<bar>x\<bar> * 2 ^ n < 2"
  shows "to_double x = Fin (of_int (round_ties_even (x * 2 ^ (52 + n))) / 2 ^ (52 + n))"
proof -
  have p: "(2 :: real) powr of_int (- int n) = 1 / 2 ^ n" by (rule powr_int_neg_nat)
  have "1 / 2 ^ n \<le> \<bar>x\<bar>" using assms(2) by (simp add: field_simps)
  then have 1: "2 powr of_int (- int n) \<le> \<bar>x\<bar>" by (simp only: p)
  have q: "(2 :: real) powr 1 = 2" by simp
  have "(2 :: real) powr of_int (- int n + 1) = 2 powr of_int (- int n) * 2 powr 1"
    by (simp only: of_int_add of_int_1 powr_add)
  also have "\<dots> = 1 / 2 ^ n * 2" by (simp only: p q)
  finally have r: "(2 :: real) powr of_int (- int n + 1) = 2 / 2 ^ n" by simp
  have "\<bar>x\<bar> < 2 / 2 ^ n" using assms(3) by (simp add: field_simps)
  then have 2: "\<bar>x\<bar> < 2 powr of_int (- int n + 1)" by (simp only: r)
  have "- int n - 52 = - int (52 + n)" by simp
  then have u: "(2 :: real) powr of_int (- int n - 52) = 1 / 2 ^ (52 + n)" by (simp only: powr_int_neg_nat)
  show ?thesis
    using to_double_eval [OF 1 2] assms(1) unfolding u by simp
qed

section \<open>The quality multiplier\<close>

lemma q_ge: "0.2 \<le> calculateQualityMultiplier t p"
  by (simp add: calculateQualityMultiplier_def Let_def max_def)

lemma q_le: "calculateQualityMultiplier t p \<le> 1"
  by (simp add: calculateQualityMultiplier_def Let_def max_def)

lemma q_flat: "t \<le> degradationOnset p \<Longrightarrow> calculateQualityMultiplier t p = 1"
  by (simp add: calculateQualityMultiplier_def)

lemma q_floor: "degradationOnset p < t \<Longrightarrow> maxTokens p \<le> t \<Longrightarrow> calculateQualityMultiplier t p = 0.2"
  by (simp add: calculateQualityMultiplier_def)

lemma q_mono:
  assumes "t1 \<le> t2"
  shows "calculateQualityMultiplier t2 p \<le> calculateQualityMultiplier t1 p"
proof (cases "t1 \<le> degradationOnset p")
  case True
  then show ?thesis using q_le [of t2 p] by (simp add: q_flat)
next
  case False
  then have on1: "degradationOnset p < t1" and on2: "degradationOnset p < t2" using assms by auto
  show ?thesis
  proof (cases "maxTokens p \<le> t2")
    case True
    then show ?thesis using q_ge [of t1 p] on2 by (simp add: q_floor)
  next
    case False
    then have lt2: "t2 < maxTokens p" and lt1: "t1 < maxTokens p" using assms by auto
    define r where "r = maxTokens p - degradationOnset p"
    have rpos: "0 < r" using on1 lt1 by (simp add: r_def)
    have "(t1 - degradationOnset p) / r \<le> (t2 - degradationOnset p) / r"
      using assms rpos by (simp add: divide_right_mono)
    moreover have "0 \<le> (t1 - degradationOnset p) / r" using on1 rpos by simp
    ultimately have "((t1 - degradationOnset p) / r) powr 1.5 \<le> ((t2 - degradationOnset p) / r) powr 1.5"
      by (intro powr_mono2) simp_all
    then show ?thesis
      using on1 on2 lt1 lt2 by (simp add: calculateQualityMultiplier_def Let_def r_def)
  qed
qed

lemma powr_three_halves: "0 \<le> x \<Longrightarrow> x powr (3 / 2) = x * sqrt x"
proof -
  assume "0 \<le> x"
  have "x powr (3/2) = x powr (1 + 1/2)" by simp
  also have "\<dots> = x powr 1 * x powr (1/2)" by (simp only: powr_add)
  also have "\<dots> = x * sqrt x" using \<open>0 \<le> x\<close> by (simp add: powr_half_sqrt)
  finally show ?thesis .
qed

lemma q_opus_155000: "calculateQualityMultiplier 155000 claude_opus_4 = 0.9"
proof -
  have "sqrt (1/4 :: real) = 1/2"
    by (simp add: real_sqrt_divide)
  then show ?thesis
    by (simp add: calculateQualityMultiplier_def claude_opus_4_def mk_profile_def Let_def powr_three_halves)
qed

text \<open>
  Claim C6, amended. For every profile with \<open>0 < degradationOnset \<le> maxTokens\<close> and all
  token counts \<open>0 \<le> t1 \<le> t2\<close>: the quality multiplier does not increase from \<open>t1\<close> to
  \<open>t2\<close>; it is 1.0 wherever the token count is at most the onset; it is 0.2 wherever the
  token count is at least \<open>maxTokens\<close> and beyond the onset; and it always lies between
  0.2 and 1.0. (The onset test comes first in the code, so at
  \<open>t = degradationOnset = maxTokens\<close> the multiplier is 1.0, not 0.2.)
\<close>

theorem quality_multiplier_shape:
  assumes "0 < degradationOnset p" and "degradationOnset p \<le> maxTokens p"
    and "0 \<le> t1" and "t1 \<le> t2"
  shows "calculateQualityMultiplier t2 p \<le> calculateQualityMultiplier t1 p
       \<and> (t1 \<le> degradationOnset p \<longrightarrow> calculateQualityMultiplier t1 p = 1.0)
       \<and> (maxTokens p \<le> t1 \<and> degradationOnset p < t1 \<longrightarrow> calculateQualityMultiplier t1 p = 0.2)
       \<and> 0.2 \<le> calculateQualityMultiplier t1 p \<and> calculateQualityMultiplier t1 p \<le> 1.0"
  using q_mono [OF assms(4), of p] q_ge [of t1 p] q_le [of t1 p]
  by (simp add: q_flat q_floor)

theorem quality_multiplier_shape_witness:
  "calculateQualityMultiplier 250000 claude_opus_4 \<le> calculateQualityMultiplier 100000 claude_opus_4
   \<and> calculateQualityMultiplier 100000 claude_opus_4 = 1.0
   \<and> calculateQualityMultiplier 250000 claude_opus_4 = 0.2
   \<and> calculateQualityMultiplier 155000 claude_opus_4 \<le> calculateQualityMultiplier 100000 claude_opus_4
   \<and> 0.2 \<le> calculateQualityMultiplier 155000 claude_opus_4"
proof -
  have p: "0 < degradationOnset claude_opus_4" "degradationOnset claude_opus_4 \<le> maxTokens claude_opus_4"
    by (simp_all add: claude_opus_4_def mk_profile_def)
  have a: "100000 \<le> degradationOnset claude_opus_4"
    and b: "maxTokens claude_opus_4 \<le> 250000 \<and> degradationOnset claude_opus_4 < 250000"
    by (simp_all add: claude_opus_4_def mk_profile_def)
  show ?thesis
    using quality_multiplier_shape [OF p, of 100000 250000]
      quality_multiplier_shape [OF p, of 250000 250000]
      quality_multiplier_shape [OF p, of 100000 155000]
      quality_multiplier_shape [OF p, of 155000 155000] a b
    by simp
qed

text \<open>
  Claim C6 as stated fails: the heuristic profile of a model with a context window of one
  token has \<open>degradationOnset = maxTokens = 1\<close>, and at \<open>t = 1 \<ge> maxTokens\<close> the
  multiplier is 1.0.
\<close>

theorem quality_multiplier_floor_counterexample:
  "0 < degradationOnset (generateHeuristicProfile ''org/model'' 1)
   \<and> degradationOnset (generateHeuristicProfile ''org/model'' 1)
       \<le> maxTokens (generateHeuristicProfile ''org/model'' 1)
   \<and> maxTokens (generateHeuristicProfile ''org/model'' 1) \<le> 1
   \<and> calculateQualityMultiplier 1 (generateHeuristicProfile ''org/model'' 1) = 1.0
   \<and> calculateQualityMultiplier 1 (generateHeuristicProfile ''org/model'' 1) \<noteq> 0.2"
  by (simp add: calculateQualityMultiplier_def generateHeuristicProfile_def round_half_up_def)

section \<open>The retrieval accuracy\<close>

lemma r_finite:
  assumes "t \<le> degradationOnset p \<or> maxTokens p \<noteq> degradationOnset p"
  shows "estimateRetrievalAccuracy t p =
         Fin (max 0.1 (baseRetrievalAccuracy p * calculateQualityMultiplier t p - middle_penalty t p))"
  using assms by (auto simp add: estimateRetrievalAccuracy_def middle_penalty_def Let_def max_def)

lemma r_nan_iff:
  "estimateRetrievalAccuracy t p = NaN \<longleftrightarrow>
     degradationOnset p < t \<and> maxTokens p = degradationOnset p \<and> middleLossCoefficient p = 0"
  by (auto simp add: estimateRetrievalAccuracy_def Let_def inf_signed_def jsub_def max_def)

lemma middle_penalty_mono:
  assumes "degradationOnset p < maxTokens p" "0 \<le> middleLossCoefficient p" "t1 \<le> t2"
  shows "middle_penalty t1 p \<le> middle_penalty t2 p"
proof -
  have pos: "0 < maxTokens p - degradationOnset p" using assms(1) by simp
  show ?thesis
  proof (cases "degradationOnset p < t1")
    case True
    then have "degradationOnset p < t2" using assms(3) by simp
    have on2: "degradationOnset p < t2" by fact
    have "(t1 - degradationOnset p) / (maxTokens p - degradationOnset p)
                   \<le> (t2 - degradationOnset p) / (maxTokens p - degradationOnset p)"
      using assms(3) pos by (simp add: divide_right_mono)
    then have "middleLossCoefficient p * ((t1 - degradationOnset p) / (maxTokens p - degradationOnset p))
                   \<le> middleLossCoefficient p * ((t2 - degradationOnset p) / (maxTokens p - degradationOnset p))"
      using assms(2) by (rule mult_left_mono)
    then show ?thesis
      using True on2 by (simp add: middle_penalty_def)
  next
    case False
    then show ?thesis using assms(2) pos by (simp add: middle_penalty_def)
  qed
qed





lemma zero_range_retrieval_accuracy:
  "estimateRetrievalAccuracy 2000 zero_range_profile = NaN"
  by (simp add: r_nan_iff zero_range_profile_def mk_profile_def)



text \<open>
  Claim C10. For every profile with \<open>0 < degradationOnset < maxTokens\<close>,
  \<open>middleLossCoefficient \<ge> 0\<close> and \<open>baseRetrievalAccuracy \<ge> 0\<close>, the retrieval-accuracy
  estimate does not increase as the token count grows: for \<open>0 \<le> t1 \<le> t2\<close> the estimate
  at \<open>t2\<close> is at most the estimate at \<open>t1\<close> (both are finite numbers).
\<close>

theorem retrieval_accuracy_monotone:
  assumes "0 < degradationOnset p" "degradationOnset p < maxTokens p"
    and "0 \<le> middleLossCoefficient p" "0 \<le> baseRetrievalAccuracy p"
    and "0 \<le> t1" "t1 \<le> t2"
  shows "jle (estimateRetrievalAccuracy t2 p) (estimateRetrievalAccuracy t1 p)"
proof -
  have ne: "maxTokens p \<noteq> degradationOnset p" using assms(2) by simp
  have "baseRetrievalAccuracy p * calculateQualityMultiplier t2 p
        \<le> baseRetrievalAccuracy p * calculateQualityMultiplier t1 p"
    using q_mono [OF assms(6), of p] assms(4) by (rule mult_left_mono)
  moreover have "middle_penalty t1 p \<le> middle_penalty t2 p"
    using assms(2,3,6) by (rule middle_penalty_mono)
  ultimately show ?thesis
    using ne by (simp add: r_finite)
qed

theorem retrieval_accuracy_monotone_witness:
  "jle (estimateRetrievalAccuracy 250000 claude_opus_4) (estimateRetrievalAccuracy 100000 claude_opus_4)"
  using retrieval_accuracy_monotone [of claude_opus_4 100000 250000]
  by (simp add: claude_opus_4_def mk_profile_def)

section \<open>The composite score and the utilization\<close>

lemma floor_half_clamp:
  "\<lfloor>max 0 (min 100 s) + 1 / 2\<rfloor> = max 0 (min 100 \<lfloor>s + 1 / 2 :: real\<rfloor>)"
proof -
  consider "s < 0" | "0 \<le> s \<and> s \<le> 100" | "100 < s" by linarith
  then show ?thesis
  proof cases
    case 1
    then have "\<lfloor>s + 1 / 2\<rfloor> \<le> 0" by (simp add: floor_le_iff)
    moreover have "max 0 (min 100 s) = 0" using 1 by simp
    ultimately show ?thesis by simp
  next
    case 2
    then have "0 \<le> \<lfloor>s + 1 / 2\<rfloor>" and "\<lfloor>s + 1 / 2\<rfloor> \<le> 100"
      by (simp_all add: le_floor_iff floor_le_iff)
    moreover have "max 0 (min 100 s) = s" using 2 by simp
    ultimately show ?thesis by simp
  next
    case 3
    then have "100 \<le> \<lfloor>s + 1 / 2\<rfloor>" by (simp add: le_floor_iff)
    moreover have "max 0 (min 100 s) = 100" using 3 by simp
    ultimately show ?thesis by simp
  qed
qed

lemma round_half_up_clamp:
  "round_half_up (max 0 (min 100 s)) = max 0 (min 100 (round_half_up s))"
proof -
  have "(of_int \<lfloor>max 0 (min 100 s) + 1 / 2\<rfloor> :: real) = of_int (max 0 (min 100 \<lfloor>s + 1 / 2\<rfloor>))"
    by (simp only: floor_half_clamp)
  then show ?thesis by (simp add: round_half_up_def max_def min_def)
qed

lemma score_fin:
  "computeHealthScore (Fin q) (Fin x) n d =
     Fin (round_half_up (max 0 (min 100 (q * 40 + x * 25 + toolScore n + sessionScore d))))"
  by (simp add: computeHealthScore_def Let_def max_def min_def)

lemma score_posinf: "computeHealthScore (Fin q) PosInf n d = Fin 100"
  by (simp add: computeHealthScore_def Let_def inf_signed_def round_half_up_def)

lemma score_neginf: "computeHealthScore (Fin q) NegInf n d = Fin 0"
  by (simp add: computeHealthScore_def Let_def inf_signed_def round_half_up_def)

lemma score_nan: "computeHealthScore (Fin q) NaN n d = NaN"
  by (simp add: computeHealthScore_def Let_def)

lemma score_spec: "computeHealthScore (Fin q) r n d = spec_health_score (Fin q) r n d"
proof (cases r)
  case (Fin x)
  have "spec_health_score (Fin q) (Fin x) n d
        = Fin (max 0 (min 100 (round_half_up (q * 40 + x * 25 + toolScore n + sessionScore d))))"
    by (simp add: spec_health_score_def max_def min_def mult.commute)
  then show ?thesis using Fin by (simp add: score_fin round_half_up_clamp)
qed (simp_all add: score_posinf score_neginf score_nan spec_health_score_def inf_signed_def round_half_up_def)

lemma round_half_up_range:
  assumes "0 \<le> y" "y \<le> 100"
  shows "\<exists>k::int. 0 \<le> k \<and> k \<le> 100 \<and> round_half_up y = of_int k"
proof -
  have "0 \<le> \<lfloor>y + 1 / 2\<rfloor>" using assms(1) by (simp add: le_floor_iff)
  moreover have "\<lfloor>y + 1 / 2\<rfloor> \<le> 100" using assms(2) by (simp add: floor_le_iff)
  ultimately show ?thesis by (auto simp: round_half_up_def)
qed

lemma score_integer:
  assumes "r \<noteq> NaN"
  shows "\<exists>k::int. 0 \<le> k \<and> k \<le> 100 \<and> computeHealthScore (Fin q) r n d = Fin (of_int k)"
proof (cases r)
  case (Fin x)
  show ?thesis unfolding Fin score_fin
    using round_half_up_range [of "max 0 (min 100 (q * 40 + x * 25 + toolScore n + sessionScore d))"]
    by auto
next
  case PosInf
  have "computeHealthScore (Fin q) PosInf n d = Fin (of_int 100)" by (simp add: score_posinf)
  then show ?thesis unfolding PosInf by (intro exI [of _ 100]) simp
next
  case NegInf
  have "computeHealthScore (Fin q) NegInf n d = Fin (of_int 0)" by (simp add: score_neginf)
  then show ?thesis unfolding NegInf by (intro exI [of _ 0]) simp
next
  case NaN
  then show ?thesis using assms by simp
qed

lemma status_of_fin:
  "(scoreToStatus (Fin k) = Healthy \<longleftrightarrow> jge (Fin k) (Fin 70))
   \<and> (scoreToStatus (Fin k) = Warning \<longleftrightarrow> jge (Fin k) (Fin 40) \<and> jlt (Fin k) (Fin 70))
   \<and> (scoreToStatus (Fin k) = Danger \<longleftrightarrow> jlt (Fin k) (Fin 40))"
  by (auto simp add: scoreToStatus_def)

text \<open>
  On every profile the score is the weighted sum
  \<open>40 q + 25 r + toolScore + sessionScore\<close>, rounded and clamped, with \<open>toolScore\<close> 20, 15,
  8, 3 and \<open>sessionScore\<close> 15, 12, 6, 2 on the four buckets; and whenever the retrieval
  accuracy is a number, the score is an integer between 0 and 100 and the status follows
  the three thresholds.
\<close>

lemma health_score_composite:
  "health_score (assessHealth input profile)
     = spec_health_score (Fin (calculateQualityMultiplier (tokenCount input) profile))
         (estimateRetrievalAccuracy (tokenCount input) profile)
         (tool_calls input) (session_minutes input)
   \<and> (estimateRetrievalAccuracy (tokenCount input) profile \<noteq> NaN \<longrightarrow>
        (\<exists>k::int. 0 \<le> k \<and> k \<le> 100 \<and> health_score (assessHealth input profile) = Fin (of_int k))
      \<and> (status (assessHealth input profile) = Healthy
           \<longleftrightarrow> jge (health_score (assessHealth input profile)) (Fin 70))
      \<and> (status (assessHealth input profile) = Warning
           \<longleftrightarrow> jge (health_score (assessHealth input profile)) (Fin 40)
               \<and> jlt (health_score (assessHealth input profile)) (Fin 70))
      \<and> (status (assessHealth input profile) = Danger
           \<longleftrightarrow> jlt (health_score (assessHealth input profile)) (Fin 40)))
   \<and> (tool_calls input \<le> 5 \<longrightarrow> toolScore (tool_calls input) = 20)
   \<and> (5 < tool_calls input \<and> tool_calls input \<le> 15 \<longrightarrow> toolScore (tool_calls input) = 15)
   \<and> (15 < tool_calls input \<and> tool_calls input \<le> 30 \<longrightarrow> toolScore (tool_calls input) = 8)
   \<and> (30 < tool_calls input \<longrightarrow> toolScore (tool_calls input) = 3)
   \<and> (session_minutes input \<le> 15 \<longrightarrow> sessionScore (session_minutes input) = 15)
   \<and> (15 < session_minutes input \<and> session_minutes input \<le> 45 \<longrightarrow> sessionScore (session_minutes input) = 12)
   \<and> (45 < session_minutes input \<and> session_minutes input \<le> 90 \<longrightarrow> sessionScore (session_minutes input) = 6)
   \<and> (90 < session_minutes input \<longrightarrow> sessionScore (session_minutes input) = 2)"
proof -
  define q where "q = calculateQualityMultiplier (tokenCount input) profile"
  define r where "r = estimateRetrievalAccuracy (tokenCount input) profile"
  define n where "n = tool_calls input"
  define d where "d = session_minutes input"
  have hs: "health_score (assessHealth input profile) = computeHealthScore (Fin q) r n d"
    by (simp add: assessHealth_def Let_def q_def r_def n_def d_def)
  have st: "status (assessHealth input profile) = scoreToStatus (computeHealthScore (Fin q) r n d)"
    by (simp add: assessHealth_def Let_def q_def r_def n_def d_def)
  have 1: "computeHealthScore (Fin q) r n d = spec_health_score (Fin q) r n d" by (rule score_spec)
  have 2: "(\<exists>k::int. 0 \<le> k \<and> k \<le> 100 \<and> computeHealthScore (Fin q) r n d = Fin (of_int k))
      \<and> (scoreToStatus (computeHealthScore (Fin q) r n d) = Healthy
           \<longleftrightarrow> jge (computeHealthScore (Fin q) r n d) (Fin 70))
      \<and> (scoreToStatus (computeHealthScore (Fin q) r n d) = Warning
           \<longleftrightarrow> jge (computeHealthScore (Fin q) r n d) (Fin 40) \<and> jlt (computeHealthScore (Fin q) r n d) (Fin 70))
      \<and> (scoreToStatus (computeHealthScore (Fin q) r n d) = Danger
           \<longleftrightarrow> jlt (computeHealthScore (Fin q) r n d) (Fin 40))" if "r \<noteq> NaN"
  proof -
    from score_integer [OF that, of q n d]
    obtain k :: int where k: "0 \<le> k" "k \<le> 100" "computeHealthScore (Fin q) r n d = Fin (of_int k)"
      by blast
    show ?thesis unfolding k(3) using k(1,2) status_of_fin [of "of_int k"] by blast
  qed
  have 3: "(n \<le> 5 \<longrightarrow> toolScore n = 20) \<and> (5 < n \<and> n \<le> 15 \<longrightarrow> toolScore n = 15)
         \<and> (15 < n \<and> n \<le> 30 \<longrightarrow> toolScore n = 8) \<and> (30 < n \<longrightarrow> toolScore n = 3)"
    by (simp add: toolScore_def)
  have 4: "(d \<le> 15 \<longrightarrow> sessionScore d = 15) \<and> (15 < d \<and> d \<le> 45 \<longrightarrow> sessionScore d = 12)
         \<and> (45 < d \<and> d \<le> 90 \<longrightarrow> sessionScore d = 6) \<and> (90 < d \<longrightarrow> sessionScore d = 2)"
    by (simp add: sessionScore_def)
  show ?thesis
    unfolding hs st q_def [symmetric] r_def [symmetric] n_def [symmetric] d_def [symmetric]
    using 1 2 3 4 by blast
qed

lemma assess_5000:
  "health_score (assessHealth (input_of 5000 ''claude-opus-4'') claude_opus_4) = Fin 99"
  by (simp add: assessHealth_def Let_def input_of_def tool_calls_def session_minutes_def
      claude_opus_4_def mk_profile_def calculateQualityMultiplier_def estimateRetrievalAccuracy_def
      computeHealthScore_def toolScore_def sessionScore_def round_half_up_def)

lemma health_score_composite_example:
  "estimateRetrievalAccuracy (tokenCount (input_of 5000 ''claude-opus-4'')) claude_opus_4 \<noteq> NaN
   \<and> health_score (assessHealth (input_of 5000 ''claude-opus-4'') claude_opus_4) = Fin 99
   \<and> status (assessHealth (input_of 5000 ''claude-opus-4'') claude_opus_4) = Healthy
   \<and> toolScore (tool_calls (input_of 5000 ''claude-opus-4'')) = 20
   \<and> sessionScore (session_minutes (input_of 5000 ''claude-opus-4'')) = 15"
proof -
  let ?i = "input_of 5000 ''claude-opus-4''"
  have r: "estimateRetrievalAccuracy (tokenCount ?i) claude_opus_4 \<noteq> NaN"
    by (simp add: r_nan_iff input_of_def claude_opus_4_def mk_profile_def)
  have n: "tool_calls ?i \<le> 5" and d: "session_minutes ?i \<le> 15"
    by (simp_all add: input_of_def tool_calls_def session_minutes_def)
  from health_score_composite [of ?i claude_opus_4] r n d
  have "status (assessHealth ?i claude_opus_4) = Healthy
          \<longleftrightarrow> jge (health_score (assessHealth ?i claude_opus_4)) (Fin 70)"
    and "toolScore (tool_calls ?i) = 20" and "sessionScore (session_minutes ?i) = 15"
    by blast+
  then show ?thesis using r by (simp add: assess_5000)
qed

text \<open>The utilization percentage, in the arithmetic of doubles.\<close>

lemma to_double_err_nat:
  assumes "1 / 2 ^ 1022 \<le> \<bar>x\<bar>" "\<bar>x\<bar> < 2 ^ 1023"
  shows "\<exists>y. to_double x = Fin y \<and> \<bar>y - x\<bar> \<le> \<bar>x\<bar> / 2 ^ 53"
proof -
  have a: "(2 :: real) powr (- 1022) = 1 / 2 ^ 1022"
    using powr_int_neg_nat [of 1022] by simp
  have b: "(2 :: real) powr 1023 = 2 ^ 1023"
    using powr_int_nat [of 1023] by simp
  show ?thesis
    by (rule to_double_err) (simp_all only: a b assms)
qed

lemma round_half_up_near:
  assumes "\<bar>b - y\<bar> \<le> e" "e < \<bar>y - (of_int \<lfloor>y\<rfloor> + 1 / 2)\<bar>"
  shows "round_half_up b = round_half_up y"
proof -
  define n where "n = \<lfloor>y\<rfloor>"
  have n: "of_int n \<le> y" "y < of_int n + 1" by (simp_all add: n_def)
  have e0: "0 \<le> e" using assms(1) by linarith
  consider "y - of_int n < 1 / 2 - e" | "1 / 2 + e < y - of_int n"
    using assms(2) unfolding n_def [symmetric] by linarith
  then have "\<lfloor>b + 1 / 2\<rfloor> = \<lfloor>y + 1 / 2\<rfloor>"
  proof cases
    case 1
    have "\<lfloor>y + 1 / 2\<rfloor> = n" using n 1 e0 by (simp add: floor_eq_iff; linarith)
    moreover have "\<lfloor>b + 1 / 2\<rfloor> = n" using n 1 e0 assms(1) by (simp add: floor_eq_iff; linarith)
    ultimately show ?thesis by simp
  next
    case 2
    have "\<lfloor>y + 1 / 2\<rfloor> = n + 1" using n 2 e0 by (simp add: floor_eq_iff; linarith)
    moreover have "\<lfloor>b + 1 / 2\<rfloor> = n + 1" using n 2 e0 assms(1) by (simp add: floor_eq_iff; linarith)
    ultimately show ?thesis by simp
  qed
  then show ?thesis by (simp add: round_half_up_def)
qed

lemma percentage_near:
  assumes "1 \<le> t" "t \<le> 2 ^ 53" "1 \<le> dz" "dz \<le> 2 ^ 53"
  shows "\<exists>k::int.
           ddiv (jround (dmul (ddiv (Fin t) (Fin dz)) (Fin 1000))) (Fin 10) = to_double (of_int k / 10)
         \<and> \<bar>of_int k - permille t dz\<bar> \<le> 1 / 2 + permille t dz / 2 ^ 51
         \<and> (of_int k = round_half_up (permille t dz)
            \<or> \<bar>permille t dz - (of_int \<lfloor>permille t dz\<rfloor> + 1 / 2)\<bar> \<le> permille t dz / 2 ^ 51)"
proof -
  define x where "x = t / dz"
  define y where "y = permille t dz"
  have y: "y = x * 1000" by (simp add: y_def permille_def x_def)
  have dz0: "dz \<noteq> 0" "0 < dz" using assms(3) by simp_all
  have xlo: "1 / 2 ^ 53 \<le> x"
  proof -
    have "1 / 2 ^ 53 \<le> 1 / dz" using assms(3,4) by (simp add: frac_le)
    also have "\<dots> \<le> t / dz" using assms(1) dz0 by (simp add: divide_right_mono)
    finally show ?thesis by (simp add: x_def)
  qed
  have xhi: "x \<le> 2 ^ 53"
  proof -
    have "t / dz \<le> t / 1" using assms(1,3) by (intro divide_left_mono) simp_all
    then show ?thesis using assms(2) by (simp add: x_def)
  qed
  have xpos: "0 < x" using xlo by (rule less_le_trans [rotated]) simp
  have "1 / 2 ^ 1022 \<le> \<bar>x\<bar>"
  proof -
    have "(1 :: real) / 2 ^ 1022 \<le> 1 / 2 ^ 53" by (intro divide_left_mono power_increasing) simp_all
    then show ?thesis using xlo xpos by linarith
  qed
  moreover have "\<bar>x\<bar> < 2 ^ 1023"
  proof -
    have "(2 :: real) ^ 53 < 2 ^ 1023" by (intro power_strict_increasing) simp_all
    then show ?thesis using xhi xpos by linarith
  qed
  ultimately obtain a where a: "to_double x = Fin a" "\<bar>a - x\<bar> \<le> \<bar>x\<bar> / 2 ^ 53"
    using to_double_err_nat [of x] by blast
  have ax: "\<bar>a - x\<bar> \<le> x / 2 ^ 53" using a(2) xpos by simp
  have alo: "x / 2 \<le> a"
  proof -
    have "x / 2 ^ 53 \<le> x / 2" using xpos by (intro divide_left_mono) simp_all
    then show ?thesis using ax by linarith
  qed
  have ahi: "a \<le> 2 * x"
  proof -
    have "x / 2 ^ 53 \<le> x" using xpos by (simp add: field_simps)
    then show ?thesis using ax by linarith
  qed
  have apos: "0 < a" using alo xpos by linarith
  have "1 / 2 ^ 1022 \<le> \<bar>a * 1000\<bar>"
  proof -
    have "(1 :: real) / 2 ^ 1022 \<le> 1 / 2 ^ 54" by (intro divide_left_mono power_increasing) simp_all
    also have "\<dots> \<le> x / 2" using xlo by simp
    also have "\<dots> \<le> a * 1000" using alo apos by linarith
    finally show ?thesis using apos by simp
  qed
  moreover have "\<bar>a * 1000\<bar> < 2 ^ 1023"
  proof -
    have "a * 1000 \<le> 2 ^ 53 * 2000" using ahi xhi by linarith
    also have "\<dots> < 2 ^ 53 * (2 :: real) ^ 11" by simp
    also have "\<dots> = 2 ^ 64" by (simp only: power_add [symmetric]) simp
    also have "\<dots> < (2 :: real) ^ 1023" by (intro power_strict_increasing) simp_all
    finally show ?thesis using apos by simp
  qed
  ultimately obtain b where b: "to_double (a * 1000) = Fin b" "\<bar>b - a * 1000\<bar> \<le> \<bar>a * 1000\<bar> / 2 ^ 53"
    using to_double_err_nat [of "a * 1000"] by blast
  define k where "k = \<lfloor>b + 1 / 2\<rfloor>"
  have eval: "ddiv (jround (dmul (ddiv (Fin t) (Fin dz)) (Fin 1000))) (Fin 10) = to_double (of_int k / 10)"
    using dz0 a(1) b(1) by (simp add: ddiv_def dmul_def x_def [symmetric] round_half_up_def k_def)
  have by1: "\<bar>b - y\<bar> \<le> y / 2 ^ 51"
  proof -
    have "\<bar>b - a * 1000\<bar> \<le> a * 1000 / 2 ^ 53" using b(2) apos by simp
    moreover have "a * 1000 / 2 ^ 53 \<le> 2 * x * 1000 / 2 ^ 53"
      using ahi by (intro divide_right_mono) simp_all
    moreover have "\<bar>a * 1000 - y\<bar> \<le> x * 1000 / 2 ^ 53"
    proof -
      have "a * 1000 - y = (a - x) * 1000" by (simp add: y algebra_simps)
      then have "\<bar>a * 1000 - y\<bar> = \<bar>a - x\<bar> * 1000" by (simp only: abs_mult abs_numeral)
      then show ?thesis using ax by simp
    qed
    ultimately have "\<bar>b - y\<bar> \<le> 3 * (x * 1000) / 2 ^ 53" by linarith
    also have "\<dots> \<le> 4 * (x * 1000) / 2 ^ 53" using xpos by (intro divide_right_mono) simp_all
    also have "\<dots> = y / 2 ^ 51" by (simp add: y)
    finally show ?thesis .
  qed
  have kb: "\<bar>of_int k - b\<bar> \<le> 1 / 2" unfolding k_def by linarith
  have 1: "\<bar>of_int k - y\<bar> \<le> 1 / 2 + y / 2 ^ 51" using kb by1 by linarith
  have 2: "of_int k = round_half_up y \<or> \<bar>y - (of_int \<lfloor>y\<rfloor> + 1 / 2)\<bar> \<le> y / 2 ^ 51"
  proof (cases "\<bar>y - (of_int \<lfloor>y\<rfloor> + 1 / 2)\<bar> \<le> y / 2 ^ 51")
    case True
    then show ?thesis by simp
  next
    case False
    then have "y / 2 ^ 51 < \<bar>y - (of_int \<lfloor>y\<rfloor> + 1 / 2)\<bar>" by simp
    from round_half_up_near [OF by1 this] show ?thesis by (simp add: k_def round_half_up_def)
  qed
  show ?thesis using eval 1 2 unfolding y_def by blast
qed


lemma percentage_eq:
  "percentage (token_utilization (assessHealth input profile))
     = ddiv (jround (dmul (ddiv (Fin (tokenCount input)) (Fin (dangerZone profile))) (Fin 1000)))
         (Fin 10)"
  by (simp add: assessHealth_def Let_def)

lemma percentage_chain:
  assumes "dz \<noteq> 0" "to_double (t / dz) = Fin a" "to_double (a * 1000) = Fin b"
    "to_double (of_int \<lfloor>b + 1 / 2\<rfloor> / 10) = Fin p"
  shows "ddiv (jround (dmul (ddiv (Fin t) (Fin dz)) (Fin 1000))) (Fin 10) = Fin p"
  using assms by (simp add: ddiv_def dmul_def round_half_up_def)

lemma percentage_85085:
  "percentage (token_utilization (assessHealth (input_of 85085 ''claude-opus-4'') claude_opus_4)) = Fin 50"
proof -
  have 1: "to_double (85085 / 170000) = Fin (2254051613498933 / 4503599627370496)"
    using to_double_lo [of 1 "85085 / 170000"] by (simp add: round_ties_even_def)
  have 2: "to_double (2254051613498933 / 4503599627370496 * 1000) = Fin (8804889115230207 / 17592186044416)"
    using to_double_hi [of 8 "2254051613498933 / 4503599627370496 * 1000"]
    by (simp add: round_ties_even_def)
  have 3: "to_double (of_int \<lfloor>8804889115230207 / 17592186044416 + 1 / 2 :: real\<rfloor> / 10) = Fin 50"
    using to_double_hi [of 5 50] by (simp add: round_ties_even_def)
  have "ddiv (jround (dmul (ddiv (Fin 85085) (Fin 170000)) (Fin 1000))) (Fin 10) = Fin 50"
    by (rule percentage_chain [OF _ 1 2 3]) simp
  then show ?thesis
    by (simp add: percentage_eq input_of_def claude_opus_4_def mk_profile_def)
qed

lemma percentage_190000:
  "percentage (token_utilization (assessHealth (input_of 190000 ''claude-opus-4'') claude_opus_4))
     = Fin (7867225599062835 / 70368744177664)"
proof -
  have 1: "to_double (190000 / 170000) = Fin (2516717438824689 / 2251799813685248)"
    using to_double_hi [of 0 "190000 / 170000"] by (simp add: round_ties_even_def)
  have 2: "to_double (2516717438824689 / 2251799813685248 * 1000) = Fin (4915463747704471 / 4398046511104)"
    using to_double_hi [of 10 "2516717438824689 / 2251799813685248 * 1000"]
    by (simp add: round_ties_even_def)
  have 3: "to_double (of_int \<lfloor>4915463747704471 / 4398046511104 + 1 / 2 :: real\<rfloor> / 10)
           = Fin (7867225599062835 / 70368744177664)"
    using to_double_hi [of 6 "1118 / 10"] by (simp add: round_ties_even_def)
  have "ddiv (jround (dmul (ddiv (Fin 190000) (Fin 170000)) (Fin 1000))) (Fin 10)
        = Fin (7867225599062835 / 70368744177664)"
    by (rule percentage_chain [OF _ 1 2 3]) simp
  then show ?thesis
    by (simp add: percentage_eq input_of_def claude_opus_4_def mk_profile_def)
qed

lemma percentage_200000:
  "percentage (token_utilization (assessHealth (input_of 200000 ''claude-opus-4'') claude_opus_4))
     = Fin (4137682157646643 / 35184372088832)"
proof -
  have 1: "to_double (200000 / 170000) = Fin (5298352502788819 / 4503599627370496)"
    using to_double_hi [of 0 "200000 / 170000"] by (simp add: round_ties_even_def)
  have 2: "to_double (5298352502788819 / 4503599627370496 * 1000) = Fin (2587086183002353 / 2199023255552)"
    using to_double_hi [of 10 "5298352502788819 / 4503599627370496 * 1000"]
    by (simp add: round_ties_even_def)
  have 3: "to_double (of_int \<lfloor>2587086183002353 / 2199023255552 + 1 / 2 :: real\<rfloor> / 10)
           = Fin (4137682157646643 / 35184372088832)"
    using to_double_hi [of 6 "1176 / 10"] by (simp add: round_ties_even_def)
  have "ddiv (jround (dmul (ddiv (Fin 200000) (Fin 170000)) (Fin 1000))) (Fin 10)
        = Fin (4137682157646643 / 35184372088832)"
    by (rule percentage_chain [OF _ 1 2 3]) simp
  then show ?thesis
    by (simp add: percentage_eq input_of_def claude_opus_4_def mk_profile_def)
qed

text \<open>
  Claim C8 says that the percentage equals \<open>round(tokenCount / dangerZone * 1000) / 10\<close>. In
  exact arithmetic that fails: at 85085 tokens on Claude Opus 4 (danger zone 170000) the
  number to round is exactly 500.5 and the formula gives 50.1, but the quotient
  \<open>85085 / 170000\<close> is rounded down to a double, its product with 1000 is the double just
  below 500.5, and the program returns 50.
\<close>

theorem utilization_percentage_tie_counterexample:
  "percentage (token_utilization (assessHealth (input_of 85085 ''claude-opus-4'') claude_opus_4))
     = Fin 50
   \<and> permille (tokenCount (input_of 85085 ''claude-opus-4'')) (dangerZone claude_opus_4) = 500.5
   \<and> spec_percentage (tokenCount (input_of 85085 ''claude-opus-4'')) (dangerZone claude_opus_4)
     = 50.1
   \<and> percentage (token_utilization (assessHealth (input_of 85085 ''claude-opus-4'') claude_opus_4))
     \<noteq> to_double (spec_percentage (tokenCount (input_of 85085 ''claude-opus-4''))
                     (dangerZone claude_opus_4))"
proof -
  have s: "spec_percentage (tokenCount (input_of 85085 ''claude-opus-4'')) (dangerZone claude_opus_4)
           = 501 / 10"
    and m: "permille (tokenCount (input_of 85085 ''claude-opus-4'')) (dangerZone claude_opus_4) = 1001 / 2"
    by (simp_all add: spec_percentage_def permille_def round_half_up_def input_of_def
        claude_opus_4_def mk_profile_def)
  have d: "to_double (501 / 10) = Fin (7050948166601933 / 140737488355328)"
    using to_double_hi [of 5 "501 / 10"] by (simp add: round_ties_even_def)
  show ?thesis unfolding s m d percentage_85085 by simp
qed

text \<open>
  Claim C8, amended. For every assessment, \<open>token_utilization.percentage\<close> is the value of
  \<open>round(tokenCount / dangerZone * 1000) / 10\<close> in double-precision arithmetic (the two
  divisions and the multiplication each rounded to the nearest double), and
  \<open>max_effective\<close> is the \<open>dangerZone\<close> of the profile, not \<open>maxTokens\<close>. For a token count
  and a danger zone between 1 and \<open>2^53\<close>, with \<open>m = tokenCount / dangerZone * 1000\<close> in
  exact arithmetic: the percentage is the double nearest to \<open>k / 10\<close> for an integer \<open>k\<close>
  within \<open>1/2 + m / 2^51\<close> of \<open>m\<close>; and it is the double nearest to the exact
  \<open>round(m) / 10\<close> unless \<open>m\<close> lies within \<open>m / 2^51\<close> of a tie of the rounding. And there
  are inputs with \<open>tokenCount > dangerZone\<close> whose percentage exceeds 100.
\<close>

theorem utilization_percentage:
  "percentage (token_utilization (assessHealth input profile))
     = ddiv (jround (dmul (ddiv (Fin (tokenCount input)) (Fin (dangerZone profile))) (Fin 1000)))
         (Fin 10)
   \<and> max_effective (token_utilization (assessHealth input profile)) = dangerZone profile
   \<and> (1 \<le> tokenCount input \<and> tokenCount input \<le> 2 ^ 53
        \<and> 1 \<le> dangerZone profile \<and> dangerZone profile \<le> 2 ^ 53 \<longrightarrow>
        (\<exists>k::int.
            percentage (token_utilization (assessHealth input profile)) = to_double (of_int k / 10)
          \<and> \<bar>of_int k - permille (tokenCount input) (dangerZone profile)\<bar>
               \<le> 1 / 2 + permille (tokenCount input) (dangerZone profile) / 2 ^ 51)
        \<and> (percentage (token_utilization (assessHealth input profile))
              = to_double (spec_percentage (tokenCount input) (dangerZone profile))
            \<or> \<bar>permille (tokenCount input) (dangerZone profile)
                 - (of_int \<lfloor>permille (tokenCount input) (dangerZone profile)\<rfloor> + 1 / 2)\<bar>
                 \<le> permille (tokenCount input) (dangerZone profile) / 2 ^ 51))
   \<and> (\<exists>input' profile'. dangerZone profile' < tokenCount input'
        \<and> jgt (percentage (token_utilization (assessHealth input' profile'))) (Fin 100))"
proof -
  have 1: "max_effective (token_utilization (assessHealth input profile)) = dangerZone profile"
    by (simp add: assessHealth_def Let_def)
  have 2: "(\<exists>k::int.
            percentage (token_utilization (assessHealth input profile)) = to_double (of_int k / 10)
          \<and> \<bar>of_int k - permille (tokenCount input) (dangerZone profile)\<bar>
               \<le> 1 / 2 + permille (tokenCount input) (dangerZone profile) / 2 ^ 51)
        \<and> (percentage (token_utilization (assessHealth input profile))
              = to_double (spec_percentage (tokenCount input) (dangerZone profile))
            \<or> \<bar>permille (tokenCount input) (dangerZone profile)
                 - (of_int \<lfloor>permille (tokenCount input) (dangerZone profile)\<rfloor> + 1 / 2)\<bar>
                 \<le> permille (tokenCount input) (dangerZone profile) / 2 ^ 51)"
    if "1 \<le> tokenCount input \<and> tokenCount input \<le> 2 ^ 53
        \<and> 1 \<le> dangerZone profile \<and> dangerZone profile \<le> 2 ^ 53"
  proof -
    from that percentage_near [of "tokenCount input" "dangerZone profile"]
    obtain k :: int where k:
      "ddiv (jround (dmul (ddiv (Fin (tokenCount input)) (Fin (dangerZone profile))) (Fin 1000)))
         (Fin 10) = to_double (of_int k / 10)"
      "\<bar>of_int k - permille (tokenCount input) (dangerZone profile)\<bar>
         \<le> 1 / 2 + permille (tokenCount input) (dangerZone profile) / 2 ^ 51"
      "of_int k = round_half_up (permille (tokenCount input) (dangerZone profile))
       \<or> \<bar>permille (tokenCount input) (dangerZone profile)
            - (of_int \<lfloor>permille (tokenCount input) (dangerZone profile)\<rfloor> + 1 / 2)\<bar>
            \<le> permille (tokenCount input) (dangerZone profile) / 2 ^ 51"
      by blast
    have a: "percentage (token_utilization (assessHealth input profile)) = to_double (of_int k / 10)"
      by (simp only: percentage_eq k(1))
    have b: "percentage (token_utilization (assessHealth input profile))
              = to_double (spec_percentage (tokenCount input) (dangerZone profile))"
      if "of_int k = round_half_up (permille (tokenCount input) (dangerZone profile))"
      using a that by (simp add: spec_percentage_def)
    show ?thesis using a k(2) k(3) b by blast
  qed
  have "dangerZone claude_opus_4 < tokenCount (input_of 190000 ''claude-opus-4'')"
    by (simp add: input_of_def claude_opus_4_def mk_profile_def)
  moreover have "jgt (percentage (token_utilization
                 (assessHealth (input_of 190000 ''claude-opus-4'') claude_opus_4))) (Fin 100)"
    unfolding percentage_190000 by simp
  ultimately have "dangerZone claude_opus_4 < tokenCount (input_of 190000 ''claude-opus-4'')
        \<and> jgt (percentage (token_utilization
                 (assessHealth (input_of 190000 ''claude-opus-4'') claude_opus_4))) (Fin 100)"
    by simp
  then have 3: "\<exists>input' profile'. dangerZone profile' < tokenCount input'
        \<and> jgt (percentage (token_utilization (assessHealth input' profile'))) (Fin 100)"
    by blast
  show ?thesis
    using percentage_eq [of input profile] 1 2 3 by blast
qed

theorem utilization_percentage_witness:
  "1 \<le> tokenCount (input_of 190000 ''claude-opus-4'')
   \<and> tokenCount (input_of 190000 ''claude-opus-4'') \<le> 2 ^ 53
   \<and> 1 \<le> dangerZone claude_opus_4 \<and> dangerZone claude_opus_4 \<le> 2 ^ 53
   \<and> max_effective (token_utilization (assessHealth (input_of 190000 ''claude-opus-4'') claude_opus_4))
       = 170000
   \<and> (\<exists>k::int.
         percentage (token_utilization (assessHealth (input_of 190000 ''claude-opus-4'') claude_opus_4))
           = to_double (of_int k / 10)
       \<and> \<bar>of_int k - permille (tokenCount (input_of 190000 ''claude-opus-4'')) (dangerZone claude_opus_4)\<bar>
            \<le> 1 / 2 + permille (tokenCount (input_of 190000 ''claude-opus-4'')) (dangerZone claude_opus_4)
                       / 2 ^ 51)"
proof -
  let ?i = "input_of 190000 ''claude-opus-4''"
  have h: "1 \<le> tokenCount ?i \<and> tokenCount ?i \<le> 2 ^ 53
           \<and> 1 \<le> dangerZone claude_opus_4 \<and> dangerZone claude_opus_4 \<le> 2 ^ 53"
    by (simp add: input_of_def claude_opus_4_def mk_profile_def)
  have dz: "dangerZone claude_opus_4 = 170000" by (simp add: claude_opus_4_def mk_profile_def)
  from utilization_percentage [of ?i claude_opus_4] h
  have "max_effective (token_utilization (assessHealth ?i claude_opus_4)) = dangerZone claude_opus_4"
    and "\<exists>k::int.
         percentage (token_utilization (assessHealth ?i claude_opus_4)) = to_double (of_int k / 10)
       \<and> \<bar>of_int k - permille (tokenCount ?i) (dangerZone claude_opus_4)\<bar>
            \<le> 1 / 2 + permille (tokenCount ?i) (dangerZone claude_opus_4) / 2 ^ 51"
    by blast+
  then show ?thesis using h dz by simp
qed

section \<open>Recommendations\<close>

lemma set_insert_rec: "set (insert_rec x ys) = insert x (set ys)"
  by (induction ys) auto

lemma set_sort_recs: "set (sort_recs xs) = set xs"
  by (induction xs) (simp_all add: sort_recs_def set_insert_rec)

lemma length_filter_insert_rec:
  "length (filter P (insert_rec x ys)) = length (filter P (x # ys))"
  by (induction ys) auto

lemma length_filter_sort_recs: "length (filter P (sort_recs xs)) = length (filter P xs)"
  by (induction xs) (simp_all add: sort_recs_def length_filter_insert_rec)

lemma filter_sort_recs_short:
  assumes "length (filter P xs) \<le> 1"
  shows "filter P (sort_recs xs) = filter P xs"
proof (cases "filter P xs")
  case Nil
  then have "length (filter P (sort_recs xs)) = 0" by (simp add: length_filter_sort_recs)
  then show ?thesis using Nil by simp
next
  case (Cons u us)
  then have us: "us = []" using assms by simp
  have "length (filter P (sort_recs xs)) = 1" using Cons us by (simp add: length_filter_sort_recs)
  then obtain v where v: "filter P (sort_recs xs) = [v]"
    by (cases "filter P (sort_recs xs)") auto
  have "set (filter P (sort_recs xs)) = set (filter P xs)" by (simp add: set_sort_recs)
  then have "v = u" using v Cons us by simp
  then show ?thesis using v Cons us by simp
qed

lemma ladder_actions:
  "r \<in> set ladder \<Longrightarrow>
   action r = ''immediate_context_reset'' \<or> action r = ''compact_context'' \<or> action r = ''plan_compaction''"
  by (auto simp add: ladder_def rec_immediate_context_reset_def rec_compact_context_critical_def
      rec_compact_context_high_def rec_plan_compaction_def)

lemma other_recs_not_in_ladder:
  "rec_offload_to_memory risk \<notin> set ladder"
  "rec_break_into_subtasks risk \<notin> set ladder"
  "rec_session_checkpoint risk \<notin> set ladder"
  "rec_verify_outputs risk \<notin> set ladder"
  "rec_continue \<notin> set ladder"
  using ladder_actions [of "rec_offload_to_memory risk"]
    ladder_actions [of "rec_break_into_subtasks risk"]
    ladder_actions [of "rec_session_checkpoint risk"]
    ladder_actions [of "rec_verify_outputs risk"]
    ladder_actions [of rec_continue]
  by (auto simp add: rec_offload_to_memory_def rec_break_into_subtasks_def
      rec_session_checkpoint_def rec_verify_outputs_def rec_continue_def)

lemma ladder_part_risk_recs:
  "ladder_part (risk_recs risk rec_offload_to_memory) = []"
  "ladder_part (risk_recs risk rec_break_into_subtasks) = []"
  "ladder_part (risk_recs risk rec_session_checkpoint) = []"
  "ladder_part (risk_recs risk rec_verify_outputs) = []"
  by (simp_all add: ladder_part_def risk_recs_def other_recs_not_in_ladder)

lemma ladder_part_utilization: "ladder_part (utilization_recs pct) = utilization_recs pct"
  by (simp add: ladder_part_def utilization_recs_def ladder_def)

lemma length_utilization_recs: "length (utilization_recs pct) \<le> 1"
  by (simp add: utilization_recs_def)

lemma ladder_part_append: "ladder_part (xs @ ys) = ladder_part xs @ ladder_part ys"
  by (simp add: ladder_part_def)

lemma ladder_part_generate:
  "ladder_part (generateRecommendations a) = utilization_recs (percentage (token_utilization a))"
proof -
  define recs where "recs = utilization_recs (percentage (token_utilization a))
               @ risk_recs (middle_content_risk (quality_estimate a)) rec_offload_to_memory
               @ risk_recs (tool_call_burden (session_fatigue a)) rec_break_into_subtasks
               @ risk_recs (session_length_risk (session_fatigue a)) rec_session_checkpoint
               @ risk_recs (estimated_hallucination_risk (quality_estimate a)) rec_verify_outputs"
  define recs' where "recs' = (if length recs = 0 then recs @ [rec_continue] else recs)"
  have g: "generateRecommendations a = sort_recs recs'"
    by (simp add: generateRecommendations_def Let_def recs_def recs'_def)
  have 1: "ladder_part recs = utilization_recs (percentage (token_utilization a))"
    by (simp add: recs_def ladder_part_append ladder_part_risk_recs ladder_part_utilization)
  have 2: "ladder_part recs' = ladder_part recs"
    by (simp add: recs'_def ladder_part_def other_recs_not_in_ladder)
  have "length (ladder_part recs') \<le> 1"
    using length_utilization_recs by (simp add: 1 2)
  then have "ladder_part (sort_recs recs') = ladder_part recs'"
    unfolding ladder_part_def by (rule filter_sort_recs_short)
  then show ?thesis by (simp add: g 1 2)
qed

text \<open>
  Claim C1, amended. The four triggers of the token-utilization ladder are the branches of
  one \<open>if / else if\<close> chain, so they are mutually exclusive: for every assessment, the
  ladder recommendations in the result are exactly the one of the highest threshold that
  the percentage reaches (at least 100: critical \<open>immediate_context_reset\<close>, gain 40; else
  at least 80: critical \<open>compact_context\<close>, gain 25; else at least 60: high
  \<open>compact_context\<close>, gain 15; else at least 40: medium \<open>plan_compaction\<close>, gain 5), and
  none when the percentage is not at least 40.
\<close>

theorem utilization_ladder_exclusive:
  "(jge (percentage (token_utilization a)) (Fin 100) \<longrightarrow>
      ladder_part (generateRecommendations a) = [rec_immediate_context_reset])
   \<and> (\<not> jge (percentage (token_utilization a)) (Fin 100)
        \<and> jge (percentage (token_utilization a)) (Fin 80) \<longrightarrow>
      ladder_part (generateRecommendations a) = [rec_compact_context_critical])
   \<and> (\<not> jge (percentage (token_utilization a)) (Fin 80)
        \<and> jge (percentage (token_utilization a)) (Fin 60) \<longrightarrow>
      ladder_part (generateRecommendations a) = [rec_compact_context_high])
   \<and> (\<not> jge (percentage (token_utilization a)) (Fin 60)
        \<and> jge (percentage (token_utilization a)) (Fin 40) \<longrightarrow>
      ladder_part (generateRecommendations a) = [rec_plan_compaction])
   \<and> (\<not> jge (percentage (token_utilization a)) (Fin 40) \<longrightarrow>
      ladder_part (generateRecommendations a) = [])"
  by (cases "percentage (token_utilization a)")
     (auto simp add: ladder_part_generate utilization_recs_def jge_def)

lemma full_window_eval:
  "full_window_assessment = \<lparr>health_score = Fin 46, status = Warning,
     token_utilization = \<lparr>current = 200000, max_effective = 170000,
                          percentage = Fin (4137682157646643 / 35184372088832),
                          danger_zone_starts_at = 170000\<rparr>,
     quality_estimate = \<lparr>retrieval_accuracy = Poor, middle_content_risk = RiskCritical,
                         estimated_hallucination_risk = RiskCritical\<rparr>,
     session_fatigue = \<lparr>tool_call_burden = RiskLow, session_length_risk = RiskLow,
                        recommendation = ''Session fatigue is low. Continue as normal.''\<rparr>\<rparr>"
proof -
  have "ddiv (jround (dmul (ddiv (Fin 200000) (Fin 170000)) (Fin 1000))) (Fin 10)
        = Fin (4137682157646643 / 35184372088832)"
    using percentage_200000
    by (simp add: percentage_eq input_of_def claude_opus_4_def mk_profile_def)
  then show ?thesis
    by (simp add: full_window_assessment_def assessHealth_def Let_def input_of_def tool_calls_def session_minutes_def
      claude_opus_4_def mk_profile_def calculateQualityMultiplier_def estimateRetrievalAccuracy_def
      computeHealthScore_def toolScore_def sessionScore_def round_half_up_def scoreToStatus_def
      calculateMiddleContentRisk_def calculateHallucinationRisk_def calculateToolCallBurden_def
      calculateSessionLengthRisk_def retrievalAccuracyToStatus_def sessionFatigueRecommendation_def)
qed

lemma full_window_recommendations:
  "generateRecommendations full_window_assessment =
     [rec_immediate_context_reset, rec_offload_to_memory RiskCritical, rec_verify_outputs RiskCritical]"
  unfolding full_window_eval
  by (simp add: generateRecommendations_def Let_def utilization_recs_def risk_recs_def sort_recs_def
      compareRecs_def priorityWeight_def riskToPriority_def rec_immediate_context_reset_def
      rec_offload_to_memory_def rec_verify_outputs_def)

theorem utilization_ladder_exclusive_witness:
  "jge (percentage (token_utilization full_window_assessment)) (Fin 100)
   \<and> ladder_part (generateRecommendations full_window_assessment) = [rec_immediate_context_reset]"
proof -
  have "jge (percentage (token_utilization full_window_assessment)) (Fin 100)"
    by (simp add: full_window_eval)
  then show ?thesis
    using utilization_ladder_exclusive [of full_window_assessment] by blast
qed

text \<open>
  Claim C1 as stated fails: at 200000 tokens on Claude Opus 4 the percentage is 117.6, and
  the result holds \<open>immediate_context_reset\<close> but none of the three other ladder
  recommendations.
\<close>

theorem utilization_ladder_all_four_counterexample:
  "jge (percentage (token_utilization full_window_assessment)) (Fin 100)
   \<and> rec_immediate_context_reset \<in> set (generateRecommendations full_window_assessment)
   \<and> rec_compact_context_critical \<notin> set (generateRecommendations full_window_assessment)
   \<and> rec_compact_context_high \<notin> set (generateRecommendations full_window_assessment)
   \<and> rec_plan_compaction \<notin> set (generateRecommendations full_window_assessment)"
  unfolding full_window_recommendations
  by (simp add: full_window_eval rec_immediate_context_reset_def rec_compact_context_critical_def
      rec_compact_context_high_def rec_plan_compaction_def rec_offload_to_memory_def
      rec_verify_outputs_def)

section \<open>The catalog\<close>

lemma split_on_no_sep: "c \<notin> set xs \<Longrightarrow> split_on c xs = [xs]"
  by (induction xs) auto

lemma looksLike_has_slash:
  assumes "looksLikeHuggingFaceRepoId m"
  shows "CHR ''/'' \<in> set m"
proof (rule ccontr)
  assume "CHR ''/'' \<notin> set m"
  then have "length (split_on (CHR ''/'') m) = 1" by (simp add: split_on_no_sep)
  then show False using assms by (simp add: looksLikeHuggingFaceRepoId_def Let_def)
qed

lemma own_keys_no_slash: "map_of MODEL_PROFILES m = Some p \<Longrightarrow> CHR ''/'' \<notin> set m"
  by (auto simp add: MODEL_PROFILES_def split: if_splits)

lemma prototype_keys_no_slash: "m \<in> set Object_prototype_keys \<Longrightarrow> CHR ''/'' \<notin> set m"
  by (auto simp add: Object_prototype_keys_def)

lemma property_get_other: "property_get ''other'' = Profile other_profile"
  by (simp add: property_get_def MODEL_PROFILES_def)

lemma getModelProfile_other: "getModelProfile ''other'' = Profile other_profile"
  by (simp add: getModelProfile_def nullish_or_def property_get_other)

lemma getModelProfile_cases:
  "getModelProfile m =
     (case map_of MODEL_PROFILES m of
        Some p \<Rightarrow> Profile p
      | None \<Rightarrow> if m \<in> set Object_prototype_keys then Inherited m else Profile other_profile)"
  by (simp add: getModelProfile_def nullish_or_def property_get_other)
     (simp add: property_get_def split: option.splits)

lemma getModelProfile_repo_id:
  "looksLikeHuggingFaceRepoId m \<Longrightarrow> getModelProfile m = Profile other_profile"
  using looksLike_has_slash [of m] own_keys_no_slash [of m] prototype_keys_no_slash [of m]
  by (auto simp add: getModelProfile_cases split: option.splits)

lemma getModelProfile_defined: "getModelProfile m \<noteq> Undefined"
  by (simp add: getModelProfile_cases split: option.splits)

lemma name_of_getModelProfile: "\<exists>nm. name_of (getModelProfile m) = Inr nm"
  using getModelProfile_defined [of m]
  by (cases "getModelProfile m") (simp_all add: name_of_def)

lemma name_other: "name other_profile = ''Unknown Model''"
  by (simp add: other_profile_def mk_profile_def)

lemma curated_names:
  "map_of MODEL_PROFILES m = Some p \<Longrightarrow> m \<noteq> ''other'' \<Longrightarrow> name p \<noteq> ''Unknown Model''"
  by (auto simp add: MODEL_PROFILES_def mk_profile_def claude_opus_4_def split: if_splits)

section \<open>Fetching\<close>

lemma fetchHuggingFaceConfig_total: "\<exists>v. fetchHuggingFaceConfig f = Inr v"
  by (simp add: fetchHuggingFaceConfig_def split: sum.splits)

lemma resolution_failure_iff: "resolution_failure f \<longleftrightarrow> fetchHuggingFaceConfig f = Inr None"
proof (cases f)
  case (Inl e)
  then show ?thesis
    by (simp add: resolution_failure_def fetchHuggingFaceConfig_def fetchHuggingFaceConfig_try_def)
next
  case (Inr response)
  show ?thesis
  proof (cases "json_body response")
    case (Inl e)
    then show ?thesis using Inr
      by (simp add: resolution_failure_def fetchHuggingFaceConfig_def fetchHuggingFaceConfig_try_def)
  next
    case body: (Inr config)
    show ?thesis
    proof (cases config)
      case JsonNull
      then show ?thesis using Inr body
        by (simp add: resolution_failure_def fetchHuggingFaceConfig_def fetchHuggingFaceConfig_try_def)
    next
      case (JsonObject a b c)
      then show ?thesis using Inr body
        by (cases "coalesce (coalesce a b) c")
           (simp_all add: resolution_failure_def fetchHuggingFaceConfig_def
              fetchHuggingFaceConfig_try_def coalesce_def Let_def)
    qed
  qed
qed

lemma fetchAndCache_failure:
  "resolution_failure f \<Longrightarrow> fetchAndCache s k f w = (s, Inr (Profile other_profile))"
  by (simp add: resolution_failure_iff fetchAndCache_def getModelProfile_other)

lemma fetchAndCache_success:
  "fetchHuggingFaceConfig f = Inr (Some m) \<Longrightarrow>
   fetchAndCache s k f w =
     (cacheProfile s k m (generateHeuristicProfile k m) w, Inr (Profile (generateHeuristicProfile k m)))"
  by (simp add: fetchAndCache_def Let_def)

lemma fetchAndCache_fulfils: "\<exists>s' v. fetchAndCache s k f w = (s', Inr (Profile v))"
proof -
  obtain v where v: "fetchHuggingFaceConfig f = Inr v"
    using fetchHuggingFaceConfig_total by blast
  show ?thesis
    by (cases v) (simp_all add: v fetchAndCache_def Let_def getModelProfile_other)
qed


section \<open>The steps of the resolver\<close>

lemma getCached_state:
  "fst (getCached s m b) =
     s\<lparr>io_log := io_log s @ (case db s of None \<Rightarrow> [] | Some rows \<Rightarrow> [CacheRead m])\<rparr>"
  by (simp add: getCached_def Let_def split: option.splits)

lemma getCached_value:
  "snd (getCached s m b) = (if b then None else map_option profile_json (cached_row s m))"
  by (simp add: getCached_def cached_row_def Let_def split: option.splits)

lemma call_immediate:
  assumes "name_of (getModelProfile m) \<noteq> Inr (Some ''Unknown Model'') \<or> \<not> looksLikeHuggingFaceRepoId m"
  shows "resolveModelProfile s m b = (s, Returns (getModelProfile m))"
proof -
  obtain nm where "name_of (getModelProfile m) = Inr nm"
    using name_of_getModelProfile by blast
  then show ?thesis using assms by (auto simp add: resolveModelProfile_def Let_def)
qed

lemma call_repo_id:
  assumes "looksLikeHuggingFaceRepoId m"
  shows "resolveModelProfile s m b =
     (case snd (getCached s m b) of
        Some c \<Rightarrow> (after_read s m, Returns (Profile c))
      | None \<Rightarrow>
          (case inFlightRequests s m of
             Some existing \<Rightarrow> (after_read s m, Awaits existing)
           | None \<Rightarrow> (started s m, Awaits (length (promises s)))))"
proof -
  have g: "getModelProfile m = Profile other_profile"
    using assms by (rule getModelProfile_repo_id)
  obtain s1 c where gc: "getCached s m b = (s1, c)" by (cases "getCached s m b")
  have s1: "s1 = after_read s m" using getCached_state [of s m b] gc by (simp add: after_read_def)
  show ?thesis
    using assms
    by (cases c; cases "inFlightRequests s m")
       (simp_all add: resolveModelProfile_def g name_of_def name_other gc s1 Let_def
          after_read_def started_def)
qed

text \<open>
  Claim C9 says that \<open>getModelProfile\<close> returns a profile for every string, the fallback
  for every identifier that is not a curated key. \<open>MODEL_PROFILES[model]\<close> also finds the
  members that a plain object inherits from \<open>Object.prototype\<close>, and \<open>??\<close> lets them
  through: for \<open>constructor\<close>, which is no curated key, the result is the inherited
  function, not a profile, and the resolver hands it on as if it were curated.
\<close>

theorem getModelProfile_inherited_member:
  "''constructor'' \<notin> set KNOWN_MODELS
   \<and> getModelProfile ''constructor'' = Inherited ''constructor''
   \<and> getModelProfile ''constructor'' \<noteq> Profile other_profile
   \<and> snd (resolveModelProfile (new_resolver None) ''constructor'' False)
       = Returns (Inherited ''constructor'')"
proof -
  have g: "getModelProfile ''constructor'' = Inherited ''constructor''"
    by (simp add: getModelProfile_cases MODEL_PROFILES_def Object_prototype_keys_def)
  have "name_of (getModelProfile ''constructor'') \<noteq> Inr (Some ''Unknown Model'')"
    by (simp add: g name_of_def)
  then have "resolveModelProfile (new_resolver None) ''constructor'' False
             = (new_resolver None, Returns (getModelProfile ''constructor''))"
    by (simp add: call_immediate)
  then show ?thesis using g by (simp add: KNOWN_MODELS_def MODEL_PROFILES_def)
qed

text \<open>
  What does hold: a catalog key gives its profile, and every other identifier that is not
  the name of a member of \<open>Object.prototype\<close> gives the fallback profile.
\<close>

lemma getModelProfile_fallback:
  "k \<notin> set (map fst MODEL_PROFILES) \<Longrightarrow> k \<notin> set Object_prototype_keys \<Longrightarrow>
   getModelProfile k = Profile other_profile"
  by (auto simp add: getModelProfile_cases map_of_eq_None_iff [THEN iffD2] image_iff
      split: option.splits dest: map_of_SomeD)

lemma getModelProfile_catalog:
  "map_of MODEL_PROFILES k = Some p \<Longrightarrow> getModelProfile k = Profile p"
  by (simp add: getModelProfile_cases)

section \<open>The assessment of a value that is not a profile\<close>

text \<open>On a profile the functions on arbitrary values are the functions above.\<close>

lemma q_untyped_profile:
  "calculateQualityMultiplier_untyped t (Profile p) = Fin (calculateQualityMultiplier t p)"
proof (cases "t \<le> degradationOnset p \<or> maxTokens p \<le> t")
  case True
  then show ?thesis
    by (auto simp add: calculateQualityMultiplier_untyped_def calculateQualityMultiplier_def number_of_def)
next
  case False
  then have "0 < (t - degradationOnset p) / (maxTokens p - degradationOnset p)" by simp
  then have "\<not> (t - degradationOnset p) / (maxTokens p - degradationOnset p) < 0" by simp
  then show ?thesis
    using False
    by (simp add: calculateQualityMultiplier_untyped_def calculateQualityMultiplier_def number_of_def
        Let_def max_def)
qed

lemma r_untyped_profile:
  "estimateRetrievalAccuracy_untyped t (Profile p) = estimateRetrievalAccuracy t p"
  by (simp add: estimateRetrievalAccuracy_untyped_def estimateRetrievalAccuracy_def q_untyped_profile
      number_of_def Let_def)

lemma assessHealth_untyped_profile:
  "assessHealth_untyped input (Profile p)
     = Inr (health_score (assessHealth input p), status (assessHealth input p))"
  by (simp add: assessHealth_untyped_def assessHealth_def Let_def q_untyped_profile r_untyped_profile)

text \<open>On an inherited member every number is \<open>NaN\<close>.\<close>

lemma q_untyped_inherited: "calculateQualityMultiplier_untyped t (Inherited k) = NaN"
  by (simp add: calculateQualityMultiplier_untyped_def number_of_def jge_def jsub_def)

lemma r_untyped_inherited: "estimateRetrievalAccuracy_untyped t (Inherited k) = NaN"
  by (simp add: estimateRetrievalAccuracy_untyped_def q_untyped_inherited number_of_def jgt_def
      jsub_def)

lemma assessHealth_untyped_inherited: "assessHealth_untyped input (Inherited k) = Inr (NaN, Danger)"
  by (simp add: assessHealth_untyped_def Let_def q_untyped_inherited r_untyped_inherited
      computeHealthScore_def scoreToStatus_def jge_def)

text \<open>
  Claim C3 says that for every assessment input the health score is the weighted sum
  \<open>40 q + 25 r + toolScore + sessionScore\<close>, rounded and clamped, an integer between 0 and
  100, and that the status is healthy iff the score is at least 70, warning iff it is at
  least 40 and below 70, danger iff it is below 40. For the input with 1000 tokens and the
  model \<open>constructor\<close> the lookup of the profile yields the function that the catalog
  object inherits under that name, with or without the resolver. None of the numeric properties exists on it, so the
  quality multiplier and the retrieval accuracy are \<open>NaN\<close>: the score is \<open>NaN\<close>, which is no
  integer between 0 and 100, and the status is danger although the score is not below 40.
\<close>

theorem health_score_nan_on_inherited_member:
  "getModelProfile (model (input_of 1000 ''constructor'')) = Inherited ''constructor''
   \<and> resolveModelProfile s (model (input_of 1000 ''constructor'')) b
       = (s, Returns (Inherited ''constructor''))
   \<and> assessHealth_untyped (input_of 1000 ''constructor'') (Inherited ''constructor'')
       = Inr (NaN, Danger)
   \<and> \<not> jlt NaN (Fin 40) \<and> \<not> jge NaN (Fin 0) \<and> \<not> jle NaN (Fin 100)"
proof -
  have g: "getModelProfile ''constructor'' = Inherited ''constructor''"
    by (simp add: getModelProfile_cases MODEL_PROFILES_def Object_prototype_keys_def)
  have "name_of (getModelProfile ''constructor'') \<noteq> Inr (Some ''Unknown Model'')"
    by (simp add: g name_of_def)
  then have "resolveModelProfile s ''constructor'' b = (s, Returns (getModelProfile ''constructor''))"
    by (simp add: call_immediate)
  then show ?thesis
    using g by (simp add: input_of_def assessHealth_untyped_inherited jge_def)
qed

section \<open>The invariant of the resolver\<close>


lemma inv_new_resolver: "resolver_inv (new_resolver d)"
  by (simp add: resolver_inv_def new_resolver_def)

lemma inv_after_read: "resolver_inv (after_read s m) = resolver_inv s"
  by (simp add: resolver_inv_def after_read_def)

lemma inv_started:
  assumes "resolver_inv s" and "inFlightRequests s m = None"
  shows "resolver_inv (started s m)"
proof -
  let ?t = "started s m"
  have 1: "pid < length (promises ?t) \<and> repo (promises ?t ! pid) = k \<and> \<not> finalized (promises ?t ! pid)"
    if "inFlightRequests ?t k = Some pid" for k pid
    using that assms(1) by (auto simp add: started_def resolver_inv_def nth_append split: if_splits)
  have 2: "inFlightRequests ?t (repo (promises ?t ! pid)) = Some pid"
    if a: "pid < length (promises ?t) \<and> \<not> finalized (promises ?t ! pid)" for pid
  proof (cases "pid < length (promises s)")
    case True
    then have nf: "\<not> finalized (promises s ! pid)" using a by (simp add: started_def nth_append)
    then have "inFlightRequests s (repo (promises s ! pid)) = Some pid"
      using assms(1) True by (simp add: resolver_inv_def)
    moreover from this have "repo (promises s ! pid) \<noteq> m" using assms(2) by auto
    ultimately show ?thesis using True by (simp add: started_def nth_append)
  next
    case False
    then have "pid = length (promises s)" using a by (simp add: started_def)
    then show ?thesis by (simp add: started_def)
  qed
  have 3: "\<not> finalized (promises ?t ! pid)"
    if "pid < length (promises ?t) \<and> state (promises ?t ! pid) = Pending" for pid
    using that assms(1) by (auto simp add: started_def resolver_inv_def nth_append split: if_splits)
  have 4: "state (promises ?t ! pid) \<noteq> Rejected e" if "pid < length (promises ?t)" for pid e
    using that assms(1) by (auto simp add: started_def resolver_inv_def nth_append split: if_splits)
  show ?thesis unfolding resolver_inv_def using 1 2 3 4 by blast
qed

lemma inv_call: "resolver_inv s \<Longrightarrow> resolver_inv (fst (resolveModelProfile s m b))"
proof (cases "looksLikeHuggingFaceRepoId m")
  case True
  assume "resolver_inv s"
  then show ?thesis
    by (simp add: call_repo_id [OF True] inv_after_read inv_started split: option.splits)
next
  case False
  assume "resolver_inv s"
  then show ?thesis using False by (simp add: call_immediate)
qed

lemma cacheProfile_fields:
  "promises (cacheProfile s k m p w) = promises s"
  "inFlightRequests (cacheProfile s k m p w) = inFlightRequests s"
  by (simp_all add: cacheProfile_def Let_def split: option.splits)

lemma fetchAndCache_fields:
  "promises (fst (fetchAndCache s k f w)) = promises s"
  "inFlightRequests (fst (fetchAndCache s k f w)) = inFlightRequests s"
  by (simp_all add: fetchAndCache_def Let_def cacheProfile_fields split: sum.splits option.splits)

lemma fetch_settles_shape:
  assumes "pid < length (promises s)" and "state (promises s ! pid) = Pending"
  shows "\<exists>v. fetch_settles s pid f w =
           (fst (fetchAndCache s (repo (promises s ! pid)) f w))
             \<lparr>promises := (promises s)[pid := (promises s ! pid)\<lparr>state := Fulfilled (Profile v)\<rparr>]\<rparr>
         \<and> snd (fetchAndCache s (repo (promises s ! pid)) f w) = Inr (Profile v)"
proof -
  obtain s' v where fc: "fetchAndCache s (repo (promises s ! pid)) f w = (s', Inr (Profile v))"
    using fetchAndCache_fulfils by blast
  have "promises s' = promises s" using fetchAndCache_fields(1) [of s "repo (promises s ! pid)" f w] fc by simp
  then show ?thesis using assms fc by (auto simp add: fetch_settles_def)
qed

lemma fetch_settles_disabled:
  "\<not> (pid < length (promises s) \<and> state (promises s ! pid) = Pending) \<Longrightarrow> fetch_settles s pid f w = s"
  by (auto simp add: fetch_settles_def)

lemma inv_promise_update:
  assumes "resolver_inv s" and "pid < length (promises s)" and "st \<noteq> Pending" and "\<forall>e. st \<noteq> Rejected e"
    and "inFlightRequests s' = inFlightRequests s"
    and "promises s' = (promises s)[pid := (promises s ! pid)\<lparr>state := st\<rparr>]"
  shows "resolver_inv s'"
  using assms unfolding resolver_inv_def
  by (auto simp add: nth_list_update)

lemma inv_settle: "resolver_inv s \<Longrightarrow> resolver_inv (fetch_settles s pid f w)"
proof (cases "pid < length (promises s) \<and> state (promises s ! pid) = Pending")
  case True
  assume w: "resolver_inv s"
  from True fetch_settles_shape [of pid s f w]
  obtain v where v: "fetch_settles s pid f w =
           (fst (fetchAndCache s (repo (promises s ! pid)) f w))
             \<lparr>promises := (promises s)[pid := (promises s ! pid)\<lparr>state := Fulfilled (Profile v)\<rparr>]\<rparr>"
    by blast
  show ?thesis
    using True
    by (intro inv_promise_update [OF w, of pid "Fulfilled (Profile v)"])
       (simp_all add: v fetchAndCache_fields)
next
  case False
  assume "resolver_inv s"
  then show ?thesis using False by (simp add: fetch_settles_disabled)
qed

lemma finally_runs_disabled:
  "\<not> (pid < length (promises s) \<and> state (promises s ! pid) \<noteq> Pending
       \<and> \<not> finalized (promises s ! pid)) \<Longrightarrow> finally_runs s pid = s"
  by (auto simp add: finally_runs_def)

lemma finally_runs_enabled:
  "pid < length (promises s) \<Longrightarrow> state (promises s ! pid) \<noteq> Pending \<Longrightarrow>
   \<not> finalized (promises s ! pid) \<Longrightarrow>
   finally_runs s pid =
     s\<lparr>inFlightRequests := (inFlightRequests s)(repo (promises s ! pid) := None),
        promises := (promises s)[pid := (promises s ! pid)\<lparr>finalized := True\<rparr>]\<rparr>"
  by (simp add: finally_runs_def)

lemma inv_finally:
  assumes "resolver_inv s"
  shows "resolver_inv (finally_runs s pid)"
proof (cases "pid < length (promises s) \<and> state (promises s ! pid) \<noteq> Pending
         \<and> \<not> finalized (promises s ! pid)")
  case False
  then have "finally_runs s pid = s" by (rule finally_runs_disabled)
  then show ?thesis using assms by simp
next
  case True
  then have fl: "inFlightRequests s (repo (promises s ! pid)) = Some pid"
    using assms by (simp add: resolver_inv_def)
  let ?t = "s\<lparr>inFlightRequests := (inFlightRequests s)(repo (promises s ! pid) := None),
        promises := (promises s)[pid := (promises s ! pid)\<lparr>finalized := True\<rparr>]\<rparr>"
  have eq: "finally_runs s pid = ?t"
    using True by (simp add: finally_runs_enabled)
  have 1: "p < length (promises ?t) \<and> repo (promises ?t ! p) = k \<and> \<not> finalized (promises ?t ! p)"
    if "inFlightRequests ?t k = Some p" for k p
  proof -
    from that have k: "k \<noteq> repo (promises s ! pid)" and p: "inFlightRequests s k = Some p"
      by (auto split: if_splits)
    from p assms have pp: "p < length (promises s)" "repo (promises s ! p) = k" "\<not> finalized (promises s ! p)"
      by (simp_all add: resolver_inv_def)
    then have "p \<noteq> pid" using k by auto
    then show ?thesis using pp by (simp add: nth_list_update)
  qed
  have 2: "inFlightRequests ?t (repo (promises ?t ! p)) = Some p"
    if "p < length (promises ?t) \<and> \<not> finalized (promises ?t ! p)" for p
  proof -
    from that True have ne: "p \<noteq> pid"
      by (auto simp add: nth_list_update)
    from that ne have pl: "p < length (promises s)" and nf: "\<not> finalized (promises s ! p)"
      by simp_all
    then have ip: "inFlightRequests s (repo (promises s ! p)) = Some p" using assms by (simp add: resolver_inv_def)
    then have "repo (promises s ! p) \<noteq> repo (promises s ! pid)" using fl ne by auto
    then show ?thesis using ne ip by (simp add: nth_list_update)
  qed
  have 3: "\<not> finalized (promises ?t ! p)"
    if "p < length (promises ?t) \<and> state (promises ?t ! p) = Pending" for p
    using that assms True by (auto simp add: resolver_inv_def nth_list_update split: if_splits)
  have 4: "state (promises ?t ! p) \<noteq> Rejected e" if "p < length (promises ?t)" for p e
    using that assms True by (auto simp add: resolver_inv_def nth_list_update split: if_splits)
  show ?thesis unfolding eq resolver_inv_def using 1 2 3 4 by blast
qed

lemma inv_step: "resolver_inv s \<Longrightarrow> resolver_inv (fst (step e s))"
  by (cases e) (simp_all add: inv_call inv_settle inv_finally)

lemma inv_run: "resolver_inv s \<Longrightarrow> resolver_inv (fst (run evs s))"
proof (induction evs arbitrary: s)
  case Nil
  then show ?case by simp
next
  case (Cons e es)
  obtain s1 r where st: "step e s = (s1, r)" by (cases "step e s")
  obtain s2 rs where rn: "run es s1 = (s2, rs)" by (cases "run es s1")
  from Cons.prems have "resolver_inv (fst (step e s))" by (rule inv_step)
  then have "resolver_inv (fst (run es s1))" unfolding st fst_conv by (rule Cons.IH)
  then show ?case by (simp add: st rn)
qed

lemma inv_reachable: "resolver_inv (fst (run evs (new_resolver d)))"
  by (rule inv_run) (rule inv_new_resolver)

lemma outstanding_in_flight:
  assumes "resolver_inv s" and "pid \<in> set (outstanding s k)"
  shows "inFlightRequests s k = Some pid"
  using assms by (auto simp add: outstanding_def resolver_inv_def)

lemma outstanding_at_most_one:
  assumes "resolver_inv s"
  shows "length (outstanding s k) \<le> 1"
proof (cases "outstanding s k")
  case Nil
  then show ?thesis by simp
next
  case (Cons x xs)
  have d: "distinct (outstanding s k)" by (simp add: outstanding_def)
  have "xs = []"
  proof (cases xs)
    case Nil
    then show ?thesis .
  next
    case (Cons y ys)
    have "inFlightRequests s k = Some x" and "inFlightRequests s k = Some y"
      using outstanding_in_flight [OF assms, of _ k] \<open>outstanding s k = x # xs\<close> Cons by simp_all
    then have "x = y" by simp
    then show ?thesis using d \<open>outstanding s k = x # xs\<close> Cons by simp
  qed
  then show ?thesis using Cons by simp
qed

section \<open>One fetch per key\<close>


lemma after_read_fields:
  "inFlightRequests (after_read s m) = inFlightRequests s"
  "promises (after_read s m) = promises s"
  "db (after_read s m) = db s"
  "cached_row (after_read s m) k = cached_row s k"
  "fetch_count (after_read s m) k = fetch_count s k"
  by (simp_all add: after_read_def cached_row_def fetch_count_def split: option.splits)

lemma started_fields:
  "inFlightRequests (started s m) = (inFlightRequests s)(m \<mapsto> length (promises s))"
  "promises (started s m) = promises s @ [\<lparr>repo = m, state = Pending, finalized = False\<rparr>]"
  "db (started s m) = db s"
  "cached_row (started s m) k = cached_row s k"
  "fetch_count (started s m) k = fetch_count s k + (if m = k then 1 else 0)"
  by (simp_all add: started_def after_read_def cached_row_def fetch_count_def split: option.splits)

lemma sharing_after_read: "sharing k pid c (after_read s m) = sharing k pid c s"
  by (simp add: sharing_def inv_after_read after_read_fields)

lemma sharing_started:
  assumes "sharing k pid c s" and "inFlightRequests s m = None"
  shows "sharing k pid c (started s m)"
proof -
  have "m \<noteq> k" using assms by (auto simp add: sharing_def)
  then show ?thesis
    using assms by (simp add: sharing_def inv_started started_fields nth_append)
qed

lemma sharing_call:
  assumes "looksLikeHuggingFaceRepoId k" and "sharing k pid c s"
  shows "sharing k pid c (fst (resolveModelProfile s m b))
       \<and> (m = k \<longrightarrow> snd (resolveModelProfile s m b) = Awaits pid)"
proof (cases "looksLikeHuggingFaceRepoId m")
  case False
  then have "m \<noteq> k" using assms(1) by auto
  then show ?thesis using False assms(2) by (simp add: call_immediate)
next
  case True
  show ?thesis
  proof (cases "m = k")
    case k: True
    have "snd (getCached s k b) = None" using assms(2) by (simp add: getCached_value sharing_def)
    moreover have "inFlightRequests s k = Some pid" using assms(2) by (simp add: sharing_def)
    ultimately show ?thesis
      using assms by (simp add: k call_repo_id sharing_after_read)
  next
    case False
    then show ?thesis
      using assms(2)
      by (simp add: call_repo_id [OF True] sharing_after_read sharing_started split: option.splits)
  qed
qed

lemma cacheProfile_other_key:
  "k' \<noteq> k \<Longrightarrow> cached_row (cacheProfile s k' m p w) k = cached_row s k"
  by (simp add: cacheProfile_def cached_row_def Let_def split: option.splits)

lemma cacheProfile_fetch_count: "fetch_count (cacheProfile s k' m p w) k = fetch_count s k"
  by (simp add: cacheProfile_def fetch_count_def Let_def split: option.splits)

lemma fetchAndCache_other_key:
  "k' \<noteq> k \<Longrightarrow> cached_row (fst (fetchAndCache s k' f w)) k = cached_row s k"
  by (simp add: fetchAndCache_def Let_def cacheProfile_other_key split: sum.splits option.splits)

lemma fetchAndCache_fetch_count: "fetch_count (fst (fetchAndCache s k' f w)) k = fetch_count s k"
  by (simp add: fetchAndCache_def Let_def cacheProfile_fetch_count split: sum.splits option.splits)

lemma pending_key_in_flight:
  assumes "resolver_inv s" and "p < length (promises s)" and "\<not> finalized (promises s ! p)"
    and "inFlightRequests s k = Some pid" and "p \<noteq> pid"
  shows "repo (promises s ! p) \<noteq> k"
  using assms by (auto simp add: resolver_inv_def)

lemma sharing_settle:
  assumes "sharing k pid c s" and "p \<noteq> pid"
  shows "sharing k pid c (fetch_settles s p f w)"
proof (cases "p < length (promises s) \<and> state (promises s ! p) = Pending")
  case False
  then have "fetch_settles s p f w = s" by (rule fetch_settles_disabled)
  then show ?thesis using assms by simp
next
  case True
  let ?k' = "repo (promises s ! p)"
  have w: "resolver_inv s" and fl: "inFlightRequests s k = Some pid" using assms(1) by (simp_all add: sharing_def)
  have "\<not> finalized (promises s ! p)" using w True by (simp add: resolver_inv_def)
  then have ne: "?k' \<noteq> k" using pending_key_in_flight [OF w _ _ fl assms(2)] True by simp
  from True fetch_settles_shape [of p s f w]
  obtain v where v: "fetch_settles s p f w =
           (fst (fetchAndCache s ?k' f w))
             \<lparr>promises := (promises s)[p := (promises s ! p)\<lparr>state := Fulfilled (Profile v)\<rparr>]\<rparr>"
    by blast
  have "cached_row (fetch_settles s p f w) k = cached_row s k"
    using fetchAndCache_other_key [OF ne, of s f w] by (simp add: v cached_row_def)
  moreover have "fetch_count (fetch_settles s p f w) k = fetch_count s k"
    using fetchAndCache_fetch_count [of s ?k' f w k] by (simp add: v fetch_count_def)
  moreover have "inFlightRequests (fetch_settles s p f w) = inFlightRequests s"
    by (simp add: v fetchAndCache_fields)
  moreover have "promises (fetch_settles s p f w) ! pid = promises s ! pid"
    using assms(2) by (simp add: v)
  moreover have "length (promises (fetch_settles s p f w)) = length (promises s)"
    by (simp add: v)
  ultimately show ?thesis
    using assms(1) inv_settle [OF w, of p f w] by (simp add: sharing_def)
qed

lemma sharing_finally:
  assumes "sharing k pid c s"
  shows "sharing k pid c (finally_runs s p)"
proof (cases "p < length (promises s) \<and> state (promises s ! p) \<noteq> Pending
         \<and> \<not> finalized (promises s ! p)")
  case False
  then have "finally_runs s p = s" by (rule finally_runs_disabled)
  then show ?thesis using assms by simp
next
  case True
  have w: "resolver_inv s" and fl: "inFlightRequests s k = Some pid" using assms(1) by (simp_all add: sharing_def)
  have pp: "p \<noteq> pid" using True assms by (auto simp add: sharing_def)
  have ne: "repo (promises s ! p) \<noteq> k" using pending_key_in_flight [OF w _ _ fl pp] True by simp
  have eq: "finally_runs s p =
     s\<lparr>inFlightRequests := (inFlightRequests s)(repo (promises s ! p) := None),
        promises := (promises s)[p := (promises s ! p)\<lparr>finalized := True\<rparr>]\<rparr>"
    using True by (simp add: finally_runs_enabled)
  show ?thesis
    using assms inv_finally [OF w, of p] ne pp
    by (simp add: sharing_def eq cached_row_def fetch_count_def)
qed

lemma sharing_step:
  assumes "looksLikeHuggingFaceRepoId k" and "sharing k pid c s" and "\<not> settles pid e"
  shows "sharing k pid c (fst (step e s)) \<and> (is_call k e \<longrightarrow> snd (step e s) = Awaits pid)"
proof (cases e)
  case (Call m b)
  then show ?thesis using sharing_call [OF assms(1,2), of m b] by simp
next
  case (FetchSettled p f w)
  then show ?thesis using assms(3) sharing_settle [OF assms(2), of p f w] by simp
next
  case (Finally p)
  then show ?thesis using sharing_finally [OF assms(2), of p] by simp
qed

lemma replies_to_Cons:
  "replies_to k (e # es) (r # rs) = (if is_call k e then r # replies_to k es rs else replies_to k es rs)"
  by (simp add: replies_to_def)

lemma sharing_run:
  assumes "looksLikeHuggingFaceRepoId k" and "sharing k pid c s"
    and "list_all (\<lambda>e. \<not> settles pid e) evs"
  shows "sharing k pid c (fst (run evs s))
       \<and> list_all (\<lambda>r. r = Awaits pid) (replies_to k evs (snd (run evs s)))"
  using assms(2,3)
proof (induction evs arbitrary: s)
  case Nil
  then show ?case by (simp add: replies_to_def)
next
  case (Cons e es)
  obtain s1 r where st: "step e s = (s1, r)" by (cases "step e s")
  obtain s2 rs where rn: "run es s1 = (s2, rs)" by (cases "run es s1")
  from Cons.prems have ne: "\<not> settles pid e" and rest: "list_all (\<lambda>e. \<not> settles pid e) es" by simp_all
  from sharing_step [OF assms(1) Cons.prems(1) ne]
  have s1: "sharing k pid c s1" and r: "is_call k e \<longrightarrow> r = Awaits pid" by (simp_all add: st)
  from Cons.IH [OF s1 rest]
  have "sharing k pid c s2" and "list_all (\<lambda>r. r = Awaits pid) (replies_to k es rs)"
    by (simp_all add: rn)
  then show ?case using r by (simp add: st rn replies_to_Cons)
qed

lemma sharing_outstanding:
  assumes "sharing k pid c s"
  shows "outstanding s k = [pid]"
proof -
  have w: "resolver_inv s" and fl: "inFlightRequests s k = Some pid" and pl: "pid < length (promises s)"
    and pend: "state (promises s ! pid) = Pending"
    using assms by (simp_all add: sharing_def)
  have "repo (promises s ! pid) = k" using w fl by (simp add: resolver_inv_def)
  then have "pid \<in> set (outstanding s k)" using pl pend by (simp add: outstanding_def)
  moreover have "length (outstanding s k) \<le> 1" using w by (rule outstanding_at_most_one)
  ultimately show ?thesis by (cases "outstanding s k") auto
qed

lemma first_call:
  assumes "looksLikeHuggingFaceRepoId k" and "cached_row s k = None" and "inFlightRequests s k = None"
  shows "resolveModelProfile s k b = (started s k, Awaits (length (promises s)))"
  using assms by (simp add: call_repo_id getCached_value)

lemma sharing_first_call:
  assumes "resolver_inv s" and "cached_row s k = None" and "inFlightRequests s k = None"
  shows "sharing k (length (promises s)) (fetch_count s k + 1) (started s k)"
  using assms by (simp add: sharing_def inv_started started_fields)

lemma received_settled:
  assumes "pid < length (promises s)" and "state (promises s ! pid) = Pending"
  shows "\<exists>v. state (promises (fetch_settles s pid f w) ! pid) = Fulfilled (Profile v)
          \<and> received (fetch_settles s pid f w) (Awaits pid) = Some (Inr (Profile v))
          \<and> snd (fetchAndCache s (repo (promises s ! pid)) f w) = Inr (Profile v)"
proof -
  from fetch_settles_shape [OF assms, of f w]
  obtain v where v: "fetch_settles s pid f w =
           (fst (fetchAndCache s (repo (promises s ! pid)) f w))
             \<lparr>promises := (promises s)[pid := (promises s ! pid)\<lparr>state := Fulfilled (Profile v)\<rparr>]\<rparr>"
     and sv: "snd (fetchAndCache s (repo (promises s ! pid)) f w) = Inr (Profile v)"
    by blast
  show ?thesis using assms(1) sv by (intro exI [of _ v]) (simp add: v received_def)
qed

lemma settled_value:
  assumes "snd (fetchAndCache s k f w) = Inr (Profile v)"
  shows "(resolution_failure f \<longrightarrow> v = other_profile)
       \<and> (\<forall>m. fetchHuggingFaceConfig f = Inr (Some m) \<longrightarrow> v = generateHeuristicProfile k m)"
  using assms by (auto simp add: fetchAndCache_failure fetchAndCache_success)

lemma run_Cons_fst: "fst (run (e # es) s) = fst (run es (fst (step e s)))"
  by (simp split: prod.splits)

lemma run_Cons_snd: "snd (run (e # es) s) = snd (step e s) # snd (run es (fst (step e s)))"
  by (simp split: prod.splits)

lemma length_run: "length (snd (run evs s)) = length evs"
  by (induction evs arbitrary: s) (simp_all add: run_Cons_snd del: run.simps(2))

lemma length_replies_to:
  "length rs = length evs \<Longrightarrow> length (replies_to k evs rs) = length (filter (is_call k) evs)"
proof (induction evs arbitrary: rs)
  case Nil
  then show ?case by (simp add: replies_to_def)
next
  case (Cons e es)
  then obtain r rs' where rs: "rs = r # rs'" by (cases rs) auto
  then show ?case using Cons by (simp add: replies_to_Cons)
qed

text \<open>
  Claim C2, amended. Take any reachable state of a resolver (with or without a database),
  and a two-segment identifier \<open>k\<close> for which nothing is cached and no fetch is in flight.
  A call for \<open>k\<close> starts the fetch \<open>pid\<close>. Whatever happens next, in any interleaving,
  before that fetch settles (further calls for \<open>k\<close> and for other identifiers,
  settlements of other fetches, \<open>finally\<close> blocks): every call for \<open>k\<close> waits for the
  same promise \<open>pid\<close>, exactly one network call has been issued for \<open>k\<close>, and \<open>pid\<close> is
  the only outstanding fetch for \<open>k\<close>. When the fetch settles, all these callers receive
  the same profile (the fallback on a failure, the heuristic profile on a success) and no
  fetch for \<open>k\<close> is outstanding; after the \<open>finally\<close> block the in-flight entry of \<open>k\<close>
  is cleared, still with one network call. And in every reachable state, every key has at
  most one outstanding fetch. (A two-segment identifier is never a catalog key: lemma
  \<open>getModelProfile_repo_id\<close>.)
\<close>

theorem single_flight_per_key:
  assumes "s0 = fst (run evs0 (new_resolver d))"
    and "looksLikeHuggingFaceRepoId k"
    and "cached_row s0 k = None" and "inFlightRequests s0 k = None"
    and "pid = length (promises s0)"
    and "list_all (\<lambda>e. \<not> settles pid e) evs"
    and "s1 = fst (run (Call k b # evs) s0)" and "rs = snd (run (Call k b # evs) s0)"
    and "s2 = fetch_settles s1 pid f w" and "s3 = finally_runs s2 pid"
  shows "length (replies_to k (Call k b # evs) rs) = Suc (length (filter (is_call k) evs))
       \<and> list_all (\<lambda>r. r = Awaits pid) (replies_to k (Call k b # evs) rs)
       \<and> fetch_count s1 k = fetch_count s0 k + 1
       \<and> outstanding s1 k = [pid]
       \<and> (\<exists>v. state (promises s2 ! pid) = Fulfilled (Profile v)
             \<and> list_all (\<lambda>r. received s2 r = Some (Inr (Profile v))) (replies_to k (Call k b # evs) rs)
             \<and> (resolution_failure f \<longrightarrow> v = other_profile)
             \<and> (\<forall>m. fetchHuggingFaceConfig f = Inr (Some m) \<longrightarrow> v = generateHeuristicProfile k m))
       \<and> outstanding s2 k = []
       \<and> fetch_count s2 k = fetch_count s0 k + 1
       \<and> inFlightRequests s3 k = None
       \<and> fetch_count s3 k = fetch_count s0 k + 1
       \<and> (\<forall>evs' d' k'. length (outstanding (fst (run evs' (new_resolver d'))) k') \<le> 1)"
proof -
  let ?c = "fetch_count s0 k + 1"
  have w0: "resolver_inv s0" unfolding assms(1) by (rule inv_reachable)
  have call: "resolveModelProfile s0 k b = (started s0 k, Awaits pid)"
    using first_call [OF assms(2,3,4), of b] by (simp add: assms(5))
  have sh0: "sharing k pid ?c (started s0 k)"
    unfolding assms(5) using w0 assms(3,4) by (rule sharing_first_call)
  have s1: "s1 = fst (run evs (started s0 k))"
    by (simp add: assms(7) run_Cons_fst call del: run.simps(2))
  have rs: "rs = Awaits pid # snd (run evs (started s0 k))"
    by (simp add: assms(8) run_Cons_snd call del: run.simps(2))
  from sharing_run [OF assms(2) sh0 assms(6)]
  have sh1: "sharing k pid ?c s1"
    and all: "list_all (\<lambda>r. r = Awaits pid) (replies_to k evs (snd (run evs (started s0 k))))"
    by (simp_all add: s1)
  have rep: "replies_to k (Call k b # evs) rs = Awaits pid # replies_to k evs (snd (run evs (started s0 k)))"
    by (simp add: rs replies_to_Cons)
  have A: "length (replies_to k (Call k b # evs) rs) = Suc (length (filter (is_call k) evs))"
    by (simp add: rep length_replies_to length_run)
  have B: "list_all (\<lambda>r. r = Awaits pid) (replies_to k (Call k b # evs) rs)"
    using all by (simp add: rep)
  have C: "fetch_count s1 k = ?c" using sh1 by (simp add: sharing_def)
  have D: "outstanding s1 k = [pid]" using sh1 by (rule sharing_outstanding)
  have w1: "resolver_inv s1" and fl1: "inFlightRequests s1 k = Some pid" and pl1: "pid < length (promises s1)"
    and pend1: "state (promises s1 ! pid) = Pending"
    using sh1 by (simp_all add: sharing_def)
  have repo1: "repo (promises s1 ! pid) = k" using w1 fl1 by (simp add: resolver_inv_def)
  have nf1: "\<not> finalized (promises s1 ! pid)" using w1 pl1 pend1 by (simp add: resolver_inv_def)
  from received_settled [OF pl1 pend1, of f w]
  obtain v where st2: "state (promises s2 ! pid) = Fulfilled (Profile v)"
    and rc2: "received s2 (Awaits pid) = Some (Inr (Profile v))"
    and fv: "snd (fetchAndCache s1 k f w) = Inr (Profile v)"
    by (auto simp add: assms(9) repo1)
  have E: "\<exists>v. state (promises s2 ! pid) = Fulfilled (Profile v)
             \<and> list_all (\<lambda>r. received s2 r = Some (Inr (Profile v))) (replies_to k (Call k b # evs) rs)
             \<and> (resolution_failure f \<longrightarrow> v = other_profile)
             \<and> (\<forall>m. fetchHuggingFaceConfig f = Inr (Some m) \<longrightarrow> v = generateHeuristicProfile k m)"
  proof (intro exI [of _ v] conjI)
    show "state (promises s2 ! pid) = Fulfilled (Profile v)" by (rule st2)
    have "list_all (\<lambda>r. received s2 r = Some (Inr (Profile v))) (replies_to k (Call k b # evs) rs)
          = list_all (\<lambda>r. r = Awaits pid \<and> received s2 r = Some (Inr (Profile v))) (replies_to k (Call k b # evs) rs)"
      using B by (auto simp add: list_all_iff)
    then show "list_all (\<lambda>r. received s2 r = Some (Inr (Profile v))) (replies_to k (Call k b # evs) rs)"
      using B rc2 by (auto simp add: list_all_iff)
    show "resolution_failure f \<longrightarrow> v = other_profile"
      using settled_value [OF fv] by blast
    show "\<forall>m. fetchHuggingFaceConfig f = Inr (Some m) \<longrightarrow> v = generateHeuristicProfile k m"
      using settled_value [OF fv] by blast
  qed
  from fetch_settles_shape [OF pl1 pend1, of f w]
  obtain v' where s2eq: "s2 =
           (fst (fetchAndCache s1 k f w))
             \<lparr>promises := (promises s1)[pid := (promises s1 ! pid)\<lparr>state := Fulfilled (Profile v')\<rparr>]\<rparr>"
    by (auto simp add: assms(9) repo1)
  have w2: "resolver_inv s2" unfolding assms(9) using w1 by (rule inv_settle)
  have fl2: "inFlightRequests s2 k = Some pid" by (simp add: s2eq fetchAndCache_fields fl1)
  have pl2: "pid < length (promises s2)" using pl1 by (simp add: s2eq)
  have p2: "promises s2 ! pid = (promises s1 ! pid)\<lparr>state := Fulfilled (Profile v')\<rparr>"
    using pl1 by (simp add: s2eq)
  have F: "outstanding s2 k = []"
  proof (rule ccontr)
    assume "outstanding s2 k \<noteq> []"
    then obtain x where x: "x \<in> set (outstanding s2 k)" by (cases "outstanding s2 k") auto
    then have "x = pid" using outstanding_in_flight [OF w2 x] fl2 by simp
    then show False using x by (simp add: outstanding_def p2)
  qed
  have G: "fetch_count s2 k = ?c"
    using C fetchAndCache_fetch_count [of s1 k f w k] by (simp add: s2eq fetch_count_def)
  have s3eq: "s3 = s2\<lparr>inFlightRequests := (inFlightRequests s2)(repo (promises s2 ! pid) := None),
        promises := (promises s2)[pid := (promises s2 ! pid)\<lparr>finalized := True\<rparr>]\<rparr>"
    unfolding assms(10) using pl2 nf1 by (intro finally_runs_enabled) (simp_all add: p2)
  have H: "inFlightRequests s3 k = None" by (simp add: s3eq p2 repo1)
  have I: "fetch_count s3 k = ?c" using G by (simp add: s3eq fetch_count_def)
  have J: "\<forall>evs' d' k'. length (outstanding (fst (run evs' (new_resolver d'))) k') \<le> 1"
    using outstanding_at_most_one [OF inv_reachable] by blast
  show ?thesis using A B C D E F G H I J by blast
qed

theorem single_flight_per_key_witness:
  "looksLikeHuggingFaceRepoId ''org/model''
   \<and> cached_row (new_resolver (Some Map.empty)) ''org/model'' = None
   \<and> fetch_count (new_resolver (Some Map.empty)) ''org/model'' = 0
   \<and> length (replies_to ''org/model''
        [Call ''org/model'' False, Call ''org/model'' False, Call ''gpt-4o'' False, Call ''org/model'' True]
        (snd (run [Call ''org/model'' False, Call ''org/model'' False, Call ''gpt-4o'' False,
                   Call ''org/model'' True] (new_resolver (Some Map.empty))))) = 3
   \<and> list_all (\<lambda>r. r = Awaits 0) (replies_to ''org/model''
        [Call ''org/model'' False, Call ''org/model'' False, Call ''gpt-4o'' False, Call ''org/model'' True]
        (snd (run [Call ''org/model'' False, Call ''org/model'' False, Call ''gpt-4o'' False,
                   Call ''org/model'' True] (new_resolver (Some Map.empty)))))
   \<and> fetch_count (fst (run [Call ''org/model'' False, Call ''org/model'' False, Call ''gpt-4o'' False,
                   Call ''org/model'' True] (new_resolver (Some Map.empty)))) ''org/model'' = 1
   \<and> outstanding (fst (run [Call ''org/model'' False, Call ''org/model'' False, Call ''gpt-4o'' False,
                   Call ''org/model'' True] (new_resolver (Some Map.empty)))) ''org/model'' = [0]
   \<and> outstanding (fetch_settles (fst (run [Call ''org/model'' False, Call ''org/model'' False,
                   Call ''gpt-4o'' False, Call ''org/model'' True] (new_resolver (Some Map.empty))))
        0 (config_response 16384) False) ''org/model'' = []
   \<and> inFlightRequests (finally_runs (fetch_settles (fst (run [Call ''org/model'' False,
                   Call ''org/model'' False, Call ''gpt-4o'' False, Call ''org/model'' True]
                   (new_resolver (Some Map.empty)))) 0 (config_response 16384) False) 0) ''org/model'' = None"
proof -
  let ?s0 = "new_resolver (Some Map.empty)"
  let ?evs = "[Call ''org/model'' False, Call ''gpt-4o'' False, Call ''org/model'' True]"
  have 1: "?s0 = fst (run [] ?s0)" by simp
  have 2: "looksLikeHuggingFaceRepoId ''org/model''" by (simp add: looksLikeHuggingFaceRepoId_def)
  have 3: "cached_row ?s0 ''org/model'' = None" by (simp add: cached_row_def new_resolver_def)
  have 4: "inFlightRequests ?s0 ''org/model'' = None" by (simp add: new_resolver_def)
  have 5: "0 = length (promises ?s0)" by (simp add: new_resolver_def)
  have 6: "list_all (\<lambda>e. \<not> settles 0 e) ?evs" by simp
  have 7: "fetch_count ?s0 ''org/model'' = 0" by (simp add: fetch_count_def new_resolver_def)
  show ?thesis
    using single_flight_per_key [OF 1 2 3 4 5 6 refl refl refl refl, of False "config_response 16384" False]
      2 3 7 by simp
qed

text \<open>
  Claim C2 as stated fails for an identifier that has no two-segment shape: \<open>llama-4\<close> is
  not in the catalog and not cached, and two calls for it issue no network call at all;
  each returns the fallback at once.
\<close>

theorem single_flight_plain_name_counterexample:
  "''llama-4'' \<notin> set KNOWN_MODELS
   \<and> cached_row (new_resolver (Some Map.empty)) ''llama-4'' = None
   \<and> snd (run [Call ''llama-4'' False, Call ''llama-4'' False] (new_resolver (Some Map.empty)))
       = [Returns (Profile other_profile), Returns (Profile other_profile)]
   \<and> fetch_count (fst (run [Call ''llama-4'' False, Call ''llama-4'' False]
        (new_resolver (Some Map.empty)))) ''llama-4'' = 0"
proof -
  have nl: "\<not> looksLikeHuggingFaceRepoId ''llama-4''" by (simp add: looksLikeHuggingFaceRepoId_def)
  have g: "getModelProfile ''llama-4'' = Profile other_profile"
    by (simp add: getModelProfile_cases MODEL_PROFILES_def Object_prototype_keys_def)
  have c: "resolveModelProfile s ''llama-4'' b = (s, Returns (Profile other_profile))" for s b
    using nl by (simp add: call_immediate g)
  show ?thesis
    by (simp add: c KNOWN_MODELS_def MODEL_PROFILES_def cached_row_def new_resolver_def fetch_count_def)
qed

section \<open>The resolution order\<close>

lemma call_curated:
  assumes "map_of MODEL_PROFILES k = Some p" and "k \<noteq> ''other''"
  shows "resolveModelProfile s k b = (s, Returns (Profile p))"
proof -
  have g: "getModelProfile k = Profile p" using assms(1) by (simp add: getModelProfile_cases)
  have "name_of (getModelProfile k) \<noteq> Inr (Some ''Unknown Model'')"
    using curated_names [OF assms] by (simp add: g name_of_def)
  then show ?thesis using call_immediate [of k s b] by (simp add: g)
qed

lemma call_cached:
  assumes "looksLikeHuggingFaceRepoId k" and "db s = Some rows" and "rows k = Some row"
  shows "resolveModelProfile s k False
         = (s\<lparr>io_log := io_log s @ [CacheRead k]\<rparr>, Returns (Profile (profile_json row)))"
  using assms by (simp add: call_repo_id getCached_value cached_row_def after_read_def)

lemma fetch_131072:
  "fetchHuggingFaceConfig (Inr \<lparr>ok = True, json_body = Inr (JsonObject (JNumber 131072) np ms)\<rparr>)
     = Inr (Some 131072)"
  by (simp add: fetchHuggingFaceConfig_def fetchHuggingFaceConfig_try_def coalesce_def)

lemma heuristic_131072:
  "generateHeuristicProfile k 131072 = mk_profile k 131072 85197 104858 0.40 0.90"
  by (simp add: generateHeuristicProfile_def mk_profile_def round_half_up_def)

text \<open>
  The resolution order on the identifiers that the catalog lookup treats as it should.
  (1) A curated identifier returns its curated profile and leaves the resolver unchanged:
  no network call, no cache access. (2) An identifier that the catalog lookup maps to the
  fallback and that has no two-segment shape returns the fallback and leaves the resolver
  unchanged. (3) In a resolver with a database whose read succeeds, a two-segment
  identifier with a cached row returns the cached profile after one cache read and no
  network call. (4) In a resolver with a database whose statements succeed, a two-segment
  identifier with no row and no fetch in flight starts a fetch; when the response carries
  \<open>max_position_embeddings = 131072\<close> the caller receives the heuristic profile with
  \<open>maxTokens = 131072\<close>, \<open>degradationOnset = 85197\<close>, \<open>dangerZone = 104858\<close>, that profile
  is written to the cache, and after the \<open>finally\<close> block a second call returns it after
  one cache read, with no second network call.
\<close>

lemma resolution_order_steps:
  "(map_of MODEL_PROFILES k = Some p \<and> k \<noteq> ''other'' \<longrightarrow>
      resolveModelProfile s k b = (s, Returns (Profile p)))
   \<and> (getModelProfile k = Profile other_profile \<and> \<not> looksLikeHuggingFaceRepoId k \<longrightarrow>
      resolveModelProfile s k b = (s, Returns (Profile other_profile)))
   \<and> (looksLikeHuggingFaceRepoId k \<and> db s = Some rows \<and> rows k = Some row \<longrightarrow>
      resolveModelProfile s k False
        = (s\<lparr>io_log := io_log s @ [CacheRead k]\<rparr>, Returns (Profile (profile_json row))))
   \<and> (looksLikeHuggingFaceRepoId k \<and> db s = Some rows \<and> rows k = None
        \<and> inFlightRequests s k = None
        \<and> s1 = fst (resolveModelProfile s k False)
        \<and> s2 = fetch_settles s1 (length (promises s))
                 (Inr \<lparr>ok = True, json_body = Inr (JsonObject (JNumber 131072) np ms)\<rparr>) False
        \<and> s3 = finally_runs s2 (length (promises s))
        \<and> hp = generateHeuristicProfile k 131072 \<longrightarrow>
      snd (resolveModelProfile s k False) = Awaits (length (promises s))
      \<and> io_log s1 = io_log s @ [CacheRead k, Fetch k]
      \<and> received s2 (Awaits (length (promises s))) = Some (Inr (Profile hp))
      \<and> maxTokens hp = 131072 \<and> degradationOnset hp = 85197 \<and> dangerZone hp = 104858
      \<and> cached_row s2 k = Some \<lparr>max_tokens = 131072, profile_json = hp\<rparr>
      \<and> io_log s2 = io_log s1 @ [CacheWrite k]
      \<and> inFlightRequests s3 k = None
      \<and> resolveModelProfile s3 k False
          = (s3\<lparr>io_log := io_log s3 @ [CacheRead k]\<rparr>, Returns (Profile hp)))"
proof -
  have c1: "map_of MODEL_PROFILES k = Some p \<and> k \<noteq> ''other'' \<longrightarrow>
      resolveModelProfile s k b = (s, Returns (Profile p))"
    by (simp add: call_curated)
  have c2: "getModelProfile k = Profile other_profile \<and> \<not> looksLikeHuggingFaceRepoId k \<longrightarrow>
      resolveModelProfile s k b = (s, Returns (Profile other_profile))"
    using call_immediate [of k s b] by simp
  have c3: "looksLikeHuggingFaceRepoId k \<and> db s = Some rows \<and> rows k = Some row \<longrightarrow>
      resolveModelProfile s k False
        = (s\<lparr>io_log := io_log s @ [CacheRead k]\<rparr>, Returns (Profile (profile_json row)))"
    by (simp add: call_cached)
  let ?f = "Inr \<lparr>ok = True, json_body = Inr (JsonObject (JNumber 131072) np ms)\<rparr> :: fetched"
  let ?pid = "length (promises s)"
  have c4: "snd (resolveModelProfile s k False) = Awaits (length (promises s))
      \<and> io_log s1 = io_log s @ [CacheRead k, Fetch k]
      \<and> received s2 (Awaits (length (promises s))) = Some (Inr (Profile hp))
      \<and> maxTokens hp = 131072 \<and> degradationOnset hp = 85197 \<and> dangerZone hp = 104858
      \<and> cached_row s2 k = Some \<lparr>max_tokens = 131072, profile_json = hp\<rparr>
      \<and> io_log s2 = io_log s1 @ [CacheWrite k]
      \<and> inFlightRequests s3 k = None
      \<and> resolveModelProfile s3 k False
          = (s3\<lparr>io_log := io_log s3 @ [CacheRead k]\<rparr>, Returns (Profile hp))"
    if a: "looksLikeHuggingFaceRepoId k \<and> db s = Some rows \<and> rows k = None
        \<and> inFlightRequests s k = None
        \<and> s1 = fst (resolveModelProfile s k False)
        \<and> s2 = fetch_settles s1 (length (promises s)) ?f False
        \<and> s3 = finally_runs s2 (length (promises s))
        \<and> hp = generateHeuristicProfile k 131072"
  proof -
    from a have lk: "looksLikeHuggingFaceRepoId k" and dbs: "db s = Some rows" and nr: "rows k = None"
      and nf: "inFlightRequests s k = None" by simp_all
    have cr: "cached_row s k = None" using dbs nr by (simp add: cached_row_def)
    have call: "resolveModelProfile s k False = (started s k, Awaits ?pid)"
      using lk cr nf by (rule first_call)
    have s1: "s1 = started s k" using a call by simp
    have p1: "?pid < length (promises s1)"
      "promises s1 ! ?pid = \<lparr>repo = k, state = Pending, finalized = False\<rparr>"
      by (simp_all add: s1 started_fields)
    have fc: "fetchAndCache s1 k ?f False = (cacheProfile s1 k 131072 hp False, Inr (Profile hp))"
      using a by (simp add: fetchAndCache_success [OF fetch_131072])
    have s2: "s2 = (cacheProfile s1 k 131072 hp False)
              \<lparr>promises := (promises s1)[?pid := \<lparr>repo = k, state = Fulfilled (Profile hp), finalized = False\<rparr>]\<rparr>"
      using a p1 by (simp add: fetch_settles_def fc cacheProfile_fields)
    have db1: "db s1 = Some rows" by (simp add: s1 started_fields dbs)
    have cp: "cacheProfile s1 k 131072 hp False
            = s1\<lparr>io_log := io_log s1 @ [CacheWrite k],
                 db := Some (rows(k \<mapsto> \<lparr>max_tokens = 131072, profile_json = hp\<rparr>))\<rparr>"
      by (simp add: cacheProfile_def db1 Let_def)
    have p2: "?pid < length (promises s2)"
      "promises s2 ! ?pid = \<lparr>repo = k, state = Fulfilled (Profile hp), finalized = False\<rparr>"
      using p1 by (simp_all add: s2 cp)
    have s3: "s3 = s2\<lparr>inFlightRequests := (inFlightRequests s2)(k := None),
        promises := (promises s2)[?pid := (promises s2 ! ?pid)\<lparr>finalized := True\<rparr>]\<rparr>"
      using a p2 by (simp add: finally_runs_def)
    have db3: "db s3 = Some (rows(k \<mapsto> \<lparr>max_tokens = 131072, profile_json = hp\<rparr>))"
      by (simp add: s3 s2 cp)
    show ?thesis
    proof (intro conjI)
      show "snd (resolveModelProfile s k False) = Awaits (length (promises s))" by (simp add: call)
      show "io_log s1 = io_log s @ [CacheRead k, Fetch k]"
        by (simp add: s1 started_def after_read_def dbs)
      show "received s2 (Awaits (length (promises s))) = Some (Inr (Profile hp))"
        using p2 by (simp add: received_def)
      show "maxTokens hp = 131072" "degradationOnset hp = 85197" "dangerZone hp = 104858"
        using a by (simp_all add: heuristic_131072 mk_profile_def)
      show "cached_row s2 k = Some \<lparr>max_tokens = 131072, profile_json = hp\<rparr>"
        by (simp add: s2 cp cached_row_def)
      show "io_log s2 = io_log s1 @ [CacheWrite k]" by (simp add: s2 cp)
      show "inFlightRequests s3 k = None" by (simp add: s3)
      show "resolveModelProfile s3 k False
          = (s3\<lparr>io_log := io_log s3 @ [CacheRead k]\<rparr>, Returns (Profile hp))"
        using call_cached [OF lk db3, of "\<lparr>max_tokens = 131072, profile_json = hp\<rparr>"] by simp
    qed
  qed
  show ?thesis
    by (rule conjI [OF c1 conjI [OF c2 conjI [OF c3 impI [OF c4]]]])
qed

lemma resolution_order_steps_example:
  "resolveModelProfile (new_resolver None) ''claude-opus-4'' False
     = (new_resolver None, Returns (Profile claude_opus_4))
   \<and> resolveModelProfile (new_resolver None) ''llama-4'' False
     = (new_resolver None, Returns (Profile other_profile))
   \<and> snd (resolveModelProfile
        (new_resolver (Some (Map.empty(''org/model'' \<mapsto>
           \<lparr>max_tokens = 8192, profile_json = generateHeuristicProfile ''org/model'' 8192\<rparr>))))
        ''org/model'' False)
     = Returns (Profile (generateHeuristicProfile ''org/model'' 8192))
   \<and> received
        (fetch_settles (fst (resolveModelProfile (new_resolver (Some Map.empty)) ''meta-llama/Llama-3.1-70B'' False))
           0 (config_response 131072) False)
        (Awaits 0)
     = Some (Inr (Profile (mk_profile ''meta-llama/Llama-3.1-70B'' 131072 85197 104858 0.40 0.90)))
   \<and> snd (resolveModelProfile
        (finally_runs
           (fetch_settles (fst (resolveModelProfile (new_resolver (Some Map.empty)) ''meta-llama/Llama-3.1-70B'' False))
              0 (config_response 131072) False) 0)
        ''meta-llama/Llama-3.1-70B'' False)
     = Returns (Profile (mk_profile ''meta-llama/Llama-3.1-70B'' 131072 85197 104858 0.40 0.90))"
proof -
  let ?k = "''meta-llama/Llama-3.1-70B''"
  let ?s = "new_resolver (Some Map.empty)"
  let ?s1 = "fst (resolveModelProfile ?s ?k False)"
  let ?s2 = "fetch_settles ?s1 0 (config_response 131072) False"
  let ?s3 = "finally_runs ?s2 0"
  let ?hp = "generateHeuristicProfile ?k 131072"
  let ?row = "\<lparr>max_tokens = 8192, profile_json = generateHeuristicProfile ''org/model'' 8192\<rparr>"
  let ?c = "new_resolver (Some (Map.empty(''org/model'' \<mapsto> ?row)))"
  have a: "map_of MODEL_PROFILES ''claude-opus-4'' = Some claude_opus_4 \<and> ''claude-opus-4'' \<noteq> ''other''"
    by (simp add: MODEL_PROFILES_def)
  have b: "getModelProfile ''llama-4'' = Profile other_profile \<and> \<not> looksLikeHuggingFaceRepoId ''llama-4''"
    by (simp add: getModelProfile_cases MODEL_PROFILES_def Object_prototype_keys_def
        looksLikeHuggingFaceRepoId_def)
  have c: "looksLikeHuggingFaceRepoId ''org/model'' \<and> db ?c = Some (Map.empty(''org/model'' \<mapsto> ?row))
        \<and> (Map.empty(''org/model'' \<mapsto> ?row)) ''org/model'' = Some ?row"
    by (simp add: looksLikeHuggingFaceRepoId_def new_resolver_def)
  have d: "looksLikeHuggingFaceRepoId ?k \<and> db ?s = Some Map.empty \<and> Map.empty ?k = None
        \<and> inFlightRequests ?s ?k = None
        \<and> ?s1 = fst (resolveModelProfile ?s ?k False)
        \<and> ?s2 = fetch_settles ?s1 (length (promises ?s))
                 (Inr \<lparr>ok = True, json_body = Inr (JsonObject (JNumber 131072) Absent Absent)\<rparr>) False
        \<and> ?s3 = finally_runs ?s2 (length (promises ?s))
        \<and> ?hp = generateHeuristicProfile ?k 131072"
    by (simp add: looksLikeHuggingFaceRepoId_def new_resolver_def config_response_def)
  have A: "resolveModelProfile (new_resolver None) ''claude-opus-4'' False
     = (new_resolver None, Returns (Profile claude_opus_4))"
    using a by (rule conjunct1 [OF resolution_order_steps, THEN mp])
  have B: "resolveModelProfile (new_resolver None) ''llama-4'' False
     = (new_resolver None, Returns (Profile other_profile))"
    using b by (rule conjunct1 [OF conjunct2 [OF resolution_order_steps], THEN mp])
  have C: "resolveModelProfile ?c ''org/model'' False
        = (?c\<lparr>io_log := io_log ?c @ [CacheRead ''org/model'']\<rparr>, Returns (Profile (profile_json ?row)))"
    using c by (rule conjunct1 [OF conjunct2 [OF conjunct2 [OF resolution_order_steps]], THEN mp])
  have D: "snd (resolveModelProfile ?s ?k False) = Awaits (length (promises ?s))
      \<and> io_log ?s1 = io_log ?s @ [CacheRead ?k, Fetch ?k]
      \<and> received ?s2 (Awaits (length (promises ?s))) = Some (Inr (Profile ?hp))
      \<and> maxTokens ?hp = 131072 \<and> degradationOnset ?hp = 85197 \<and> dangerZone ?hp = 104858
      \<and> cached_row ?s2 ?k = Some \<lparr>max_tokens = 131072, profile_json = ?hp\<rparr>
      \<and> io_log ?s2 = io_log ?s1 @ [CacheWrite ?k]
      \<and> inFlightRequests ?s3 ?k = None
      \<and> resolveModelProfile ?s3 ?k False
          = (?s3\<lparr>io_log := io_log ?s3 @ [CacheRead ?k]\<rparr>, Returns (Profile ?hp))"
    using d by (rule conjunct2 [OF conjunct2 [OF conjunct2 [OF resolution_order_steps]], THEN mp])
  have len: "length (promises ?s) = 0" by (simp add: new_resolver_def)
  show ?thesis
    using A B C D unfolding len by (simp add: heuristic_131072)
qed

text \<open>
  Claim C4 says that a curated identifier returns its curated profile and that an
  identifier without two-segment shape returns the fallback profile, with no input or
  output. The identifier \<open>constructor\<close> is no key of the catalog and has no two-segment
  shape, but the first step of \<open>resolveModelProfile\<close> takes the inherited function that
  the catalog lookup yields under that name for a curated profile, because its name is not
  \<open>Unknown Model\<close>, and returns it: the caller receives neither a curated profile nor the
  fallback.
\<close>

theorem resolution_order_inherited_member:
  "''constructor'' \<notin> set (map fst MODEL_PROFILES)
   \<and> \<not> looksLikeHuggingFaceRepoId ''constructor''
   \<and> resolveModelProfile s ''constructor'' b = (s, Returns (Inherited ''constructor''))
   \<and> Returns (Inherited ''constructor'') \<noteq> Returns (Profile other_profile)"
proof -
  have g: "getModelProfile ''constructor'' = Inherited ''constructor''"
    by (simp add: getModelProfile_cases MODEL_PROFILES_def Object_prototype_keys_def)
  have "name_of (getModelProfile ''constructor'') \<noteq> Inr (Some ''Unknown Model'')"
    by (simp add: g name_of_def)
  then have "resolveModelProfile s ''constructor'' b = (s, Returns (getModelProfile ''constructor''))"
    by (simp add: call_immediate)
  then show ?thesis
    using g by (simp add: MODEL_PROFILES_def looksLikeHuggingFaceRepoId_def)
qed

section \<open>Resolution failures\<close>

lemma call_never_throws: "snd (resolveModelProfile s m b) \<noteq> Throws e"
proof (cases "looksLikeHuggingFaceRepoId m")
  case True
  then show ?thesis by (simp add: call_repo_id split: option.splits)
next
  case False
  then show ?thesis by (simp add: call_immediate)
qed

lemma step_never_throws: "snd (step ev s) \<noteq> Throws e"
  by (cases ev) (simp_all add: call_never_throws)

lemma run_never_throws: "Throws e \<notin> set (snd (run evs s))"
proof (induction evs arbitrary: s)
  case Nil
  then show ?case by simp
next
  case (Cons ev evs)
  then show ?case using step_never_throws [of ev s e]
    by (auto simp add: run_Cons_snd simp del: run.simps(2))
qed

lemma received_no_error:
  assumes "resolver_inv s" and "\<forall>e. r \<noteq> Throws e"
  shows "received s r \<noteq> Some (Inl e)"
proof (cases r)
  case (Awaits pid)
  show ?thesis
  proof (cases "pid < length (promises s)")
    case True
    then have "state (promises s ! pid) \<noteq> Rejected e" using assms(1) by (simp add: resolver_inv_def)
    then show ?thesis using Awaits True by (auto simp add: received_def split: promise_state.splits)
  next
    case False
    then show ?thesis using Awaits by (simp add: received_def)
  qed
next
  case (Returns v)
  then show ?thesis by (simp add: received_def)
next
  case (Throws e')
  then show ?thesis using assms(2) by simp
next
  case NoReply
  then show ?thesis by (simp add: received_def)
qed

lemma fetch_settles_failure:
  assumes "resolution_failure f" and "pid < length (promises s)" and "state (promises s ! pid) = Pending"
  shows "fetch_settles s pid f w
         = s\<lparr>promises := (promises s)[pid := (promises s ! pid)\<lparr>state := Fulfilled (Profile other_profile)\<rparr>]\<rparr>"
  using assms by (simp add: fetch_settles_def fetchAndCache_failure)

text \<open>
  Claim C5. A resolution failure (timeout, network error, non-2xx response, unreadable
  body, missing or invalid context-length field, non-positive value) is exactly the case
  where \<open>fetchHuggingFaceConfig\<close> yields \<open>null\<close>. When the fetch behind a pending promise
  fails in this way, everyone waiting for the promise receives the \<open>other\<close> fallback
  profile, and neither the cache nor the input and output log changes (no cache write is
  attempted). In particular, for every two-segment identifier with nothing cached and
  nothing in flight, the call starts a fetch and, when that fetch fails, receives the
  fallback, with the cache as it was. And in every run of the resolver no call throws and
  no caller ever receives a rejection.
\<close>

theorem resolution_failure_recovered:
  "(resolution_failure f \<longleftrightarrow> fetchHuggingFaceConfig f = Inr None)
   \<and> (resolution_failure f \<and> pid < length (promises s) \<and> state (promises s ! pid) = Pending \<longrightarrow>
        received (fetch_settles s pid f w) (Awaits pid) = Some (Inr (Profile other_profile))
        \<and> db (fetch_settles s pid f w) = db s
        \<and> io_log (fetch_settles s pid f w) = io_log s)
   \<and> (resolution_failure f \<and> looksLikeHuggingFaceRepoId k \<and> cached_row s k = None
        \<and> inFlightRequests s k = None \<longrightarrow>
        snd (resolveModelProfile s k b) = Awaits (length (promises s))
        \<and> received (fetch_settles (fst (resolveModelProfile s k b)) (length (promises s)) f w)
             (snd (resolveModelProfile s k b)) = Some (Inr (Profile other_profile))
        \<and> db (fetch_settles (fst (resolveModelProfile s k b)) (length (promises s)) f w) = db s)
   \<and> (\<forall>e. Throws e \<notin> set (snd (run evs (new_resolver d))))
   \<and> (\<forall>r e. r \<in> set (snd (run evs (new_resolver d))) \<longrightarrow>
         received (fst (run evs (new_resolver d))) r \<noteq> Some (Inl e))"
proof -
  have c1: "resolution_failure f \<longleftrightarrow> fetchHuggingFaceConfig f = Inr None"
    by (rule resolution_failure_iff)
  have c2: "received (fetch_settles s' p f w) (Awaits p) = Some (Inr (Profile other_profile))
        \<and> db (fetch_settles s' p f w) = db s'
        \<and> io_log (fetch_settles s' p f w) = io_log s'"
    if "resolution_failure f \<and> p < length (promises s') \<and> state (promises s' ! p) = Pending" for s' p
    using that by (simp add: fetch_settles_failure received_def)
  have c3: "snd (resolveModelProfile s k b) = Awaits (length (promises s))
        \<and> received (fetch_settles (fst (resolveModelProfile s k b)) (length (promises s)) f w)
             (snd (resolveModelProfile s k b)) = Some (Inr (Profile other_profile))
        \<and> db (fetch_settles (fst (resolveModelProfile s k b)) (length (promises s)) f w) = db s"
    if a: "resolution_failure f \<and> looksLikeHuggingFaceRepoId k \<and> cached_row s k = None
        \<and> inFlightRequests s k = None"
  proof -
    have call: "resolveModelProfile s k b = (started s k, Awaits (length (promises s)))"
      using a by (simp add: first_call)
    have "resolution_failure f \<and> length (promises s) < length (promises (started s k))
          \<and> state (promises (started s k) ! length (promises s)) = Pending"
      using a by (simp add: started_fields)
    from c2 [OF this] show ?thesis by (simp add: call started_fields)
  qed
  have c4: "\<forall>e. Throws e \<notin> set (snd (run evs (new_resolver d)))"
    by (simp add: run_never_throws)
  have c5: "\<forall>r e. r \<in> set (snd (run evs (new_resolver d))) \<longrightarrow>
         received (fst (run evs (new_resolver d))) r \<noteq> Some (Inl e)"
  proof (intro allI impI)
    fix r e
    assume "r \<in> set (snd (run evs (new_resolver d)))"
    then have "\<forall>e. r \<noteq> Throws e" using run_never_throws [of _ evs "new_resolver d"] by auto
    then show "received (fst (run evs (new_resolver d))) r \<noteq> Some (Inl e)"
      using inv_reachable [of evs d] by (rule received_no_error [rotated])
  qed
  show ?thesis
    using c1 c2 [where s' = s and p = pid] c3 c4 c5 by blast
qed

theorem resolution_failure_recovered_witness:
  "resolution_failure not_found_response
   \<and> resolution_failure (Inl TimeoutError)
   \<and> resolution_failure (config_response 0)
   \<and> received
        (fetch_settles (fst (resolveModelProfile (new_resolver (Some Map.empty)) ''nonexistent/model'' False))
           0 not_found_response False)
        (Awaits 0)
     = Some (Inr (Profile other_profile))
   \<and> db (fetch_settles (fst (resolveModelProfile (new_resolver (Some Map.empty)) ''nonexistent/model'' False))
           0 not_found_response False)
     = db (new_resolver (Some Map.empty))"
proof -
  let ?s = "new_resolver (Some Map.empty)"
  let ?k = "''nonexistent/model''"
  have f: "resolution_failure not_found_response" "resolution_failure (Inl TimeoutError)"
    "resolution_failure (config_response 0)"
    by (simp_all add: resolution_failure_def not_found_response_def config_response_def coalesce_def)
  have h: "resolution_failure not_found_response \<and> looksLikeHuggingFaceRepoId ?k
       \<and> cached_row ?s ?k = None \<and> inFlightRequests ?s ?k = None"
    using f by (simp add: looksLikeHuggingFaceRepoId_def cached_row_def new_resolver_def)
  have R: "snd (resolveModelProfile ?s ?k False) = Awaits (length (promises ?s))
        \<and> received (fetch_settles (fst (resolveModelProfile ?s ?k False)) (length (promises ?s))
              not_found_response False)
             (snd (resolveModelProfile ?s ?k False)) = Some (Inr (Profile other_profile))
        \<and> db (fetch_settles (fst (resolveModelProfile ?s ?k False)) (length (promises ?s))
              not_found_response False) = db ?s"
    using h by (rule conjunct1 [OF conjunct2 [OF conjunct2 [OF resolution_failure_recovered]], THEN mp])
  have len: "length (promises ?s) = 0" by (simp add: new_resolver_def)
  from R have r1: "snd (resolveModelProfile ?s ?k False) = Awaits 0"
    and r2: "received (fetch_settles (fst (resolveModelProfile ?s ?k False)) 0 not_found_response False)
             (snd (resolveModelProfile ?s ?k False)) = Some (Inr (Profile other_profile))"
    and r3: "db (fetch_settles (fst (resolveModelProfile ?s ?k False)) 0 not_found_response False) = db ?s"
    unfolding len by blast+
  show ?thesis using f r2 r3 unfolding r1 by blast
qed

end
